theory Spec2Isabelle
  imports Main "HOL-Library.Word"
begin

section \<open>Strings of the host language\<close>

text \<open>
  A string of the source language is a sequence of 16-bit code units. \<open>lit\<close> embeds an
  ASCII literal. \<open>isWhiteSpace\<close> is the set of code units that \<^verbatim>\<open>String.prototype.trim\<close>
  strips (white space and line terminators); \<open>trim\<close> strips them from both ends.
  A string is truthy exactly when it is not empty.
\<close>

type_synonym code_unit = "16 word"
type_synonym jsstring = "code_unit list"

definition lit :: "string \<Rightarrow> jsstring" where
  "lit s = map of_char s"

definition isWhiteSpace :: "code_unit \<Rightarrow> bool" where
  "isWhiteSpace c \<longleftrightarrow>
     c = 0x0009 \<or> c = 0x000A \<or> c = 0x000B \<or> c = 0x000C \<or> c = 0x000D \<or> c = 0x0020 \<or>
     c = 0x00A0 \<or> c = 0x1680 \<or> (0x2000 \<le> c \<and> c \<le> 0x200A) \<or> c = 0x2028 \<or>
     c = 0x2029 \<or> c = 0x202F \<or> c = 0x205F \<or> c = 0x3000 \<or> c = 0xFEFF"

definition trim :: "jsstring \<Rightarrow> jsstring" where
  "trim s = rev (dropWhile isWhiteSpace (rev (dropWhile isWhiteSpace s)))"

definition truthy :: "jsstring option \<Rightarrow> bool" where
  "truthy v = (case v of None \<Rightarrow> False | Some s \<Rightarrow> s \<noteq> [])"

text \<open>
  \<^verbatim>\<open>Date.now().toString()\<close>: the decimal digits of a non-negative integer clock reading
  (milliseconds), most significant digit first.
\<close>

definition digit :: "nat \<Rightarrow> code_unit" where
  "digit d = of_nat (48 + d)"

fun toString :: "nat \<Rightarrow> jsstring" where
  "toString n = (if n < 10 then [digit n] else toString (n div 10) @ [digit (n mod 10)])"

declare toString.simps [simp del]

section \<open>Data model\<close>

text \<open>The interface \<^verbatim>\<open>Turn\<close> and the enum \<^verbatim>\<open>ConnectionState\<close> of the type declarations.\<close>

record Turn =
  id' :: jsstring
  userTranscript :: jsstring
  modelResponse :: jsstring
  isComplete :: bool
  timestamp :: nat

datatype ConnectionState = DISCONNECTED | CONNECTING | CONNECTED | ERROR

text \<open>
  \<^verbatim>\<open>Partial<Turn>\<close>: every field optional. \<open>None\<close> is an absent key. \<open>spread t u\<close> is the
  object spread \<^verbatim>\<open>{ ...t, ...u }\<close>: the keys present in \<open>u\<close> win.
\<close>

record updates =
  new_id :: "jsstring option"
  new_userTranscript :: "jsstring option"
  new_modelResponse :: "jsstring option"
  new_isComplete :: "bool option"
  new_timestamp :: "nat option"

definition no_updates :: updates where
  "no_updates = \<lparr>new_id = None, new_userTranscript = None, new_modelResponse = None,
                  new_isComplete = None, new_timestamp = None\<rparr>"

definition spread :: "Turn \<Rightarrow> updates \<Rightarrow> Turn" where
  "spread t u =
     \<lparr>id' = (case new_id u of None \<Rightarrow> id' t | Some v \<Rightarrow> v),
      userTranscript = (case new_userTranscript u of None \<Rightarrow> userTranscript t | Some v \<Rightarrow> v),
      modelResponse = (case new_modelResponse u of None \<Rightarrow> modelResponse t | Some v \<Rightarrow> v),
      isComplete = (case new_isComplete u of None \<Rightarrow> isComplete t | Some v \<Rightarrow> v),
      timestamp = (case new_timestamp u of None \<Rightarrow> timestamp t | Some v \<Rightarrow> v)\<rparr>"

text \<open>\<^verbatim>\<open>Array.prototype.findIndex\<close>: the first index whose element satisfies the predicate;
  the source's \<^verbatim>\<open>-1\<close> is \<open>None\<close>.\<close>

fun findIndex :: "('a \<Rightarrow> bool) \<Rightarrow> 'a list \<Rightarrow> nat option" where
  "findIndex p [] = None"
| "findIndex p (x # xs) = (if p x then Some 0 else map_option Suc (findIndex p xs))"

text \<open>
  The state updaters that \<^verbatim>\<open>updateTurn\<close> and \<^verbatim>\<open>createTurn\<close> hand to \<^verbatim>\<open>setTurns\<close>, as
  functions from the previous turn sequence to the next one. \<open>createTurn\<close> takes the
  clock reading that \<^verbatim>\<open>Date.now()\<close> returns for the time stamp.
\<close>

definition updateTurn :: "jsstring \<Rightarrow> updates \<Rightarrow> Turn list \<Rightarrow> Turn list" where
  "updateTurn i u prev =
     (case findIndex (\<lambda>t. id' t = i) prev of
        None \<Rightarrow> prev
      | Some index \<Rightarrow> prev[index := spread (prev ! index) u])"

definition createTurn :: "jsstring \<Rightarrow> nat \<Rightarrow> Turn list \<Rightarrow> Turn list" where
  "createTurn i now prev =
     prev @ [\<lparr>id' = i, userTranscript = [], modelResponse = [], isComplete = False,
              timestamp = now\<rparr>]"

section \<open>The environment of the hook\<close>

text \<open>
  The hook runs on a single-threaded event loop. What the platform answers to a call
  is an input of the model. \<open>call_result\<close> is the answer to a call whose promise is
  awaited: the promise fulfils with a value, it rejects, or the call throws before it
  returns a promise.
\<close>

datatype 'a call_result = Fulfilled 'a | Rejected | Thrown

text \<open>
  What the platform answers during one run of \<^verbatim>\<open>disconnect\<close>: the result of
  \<^verbatim>\<open>session.close()\<close>, whether \<^verbatim>\<open>track.stop()\<close>, \<^verbatim>\<open>processor.disconnect()\<close> and
  \<^verbatim>\<open>source.disconnect()\<close> throw, whether the audio context reports the state
  \<^verbatim>\<open>'closed'\<close>, and the result of \<^verbatim>\<open>audioContext.close()\<close>.
\<close>

record teardown_env =
  sessionClose :: "unit call_result"
  trackStopThrows :: bool
  processorDisconnectThrows :: bool
  sourceDisconnectThrows :: bool
  contextStateClosed :: bool
  contextClose :: "unit call_result"

text \<open>
  What the platform answers during one run of \<^verbatim>\<open>connect\<close>: the handle of the new audio
  context (\<open>None\<close>: the constructor throws), the result of \<^verbatim>\<open>audioContext.resume()\<close>,
  the stream of \<^verbatim>\<open>getUserMedia\<close>, the source and analyser nodes (\<open>None\<close>: the call
  throws), the session of \<^verbatim>\<open>ai.live.connect\<close>, and the answers to the teardown that the
  \<^verbatim>\<open>catch\<close> block starts.
\<close>

record connect_env =
  newAudioContext :: "nat option"
  contextResume :: "unit call_result"
  getUserMedia :: "nat call_result"
  createMediaStreamSource :: "nat option"
  createAnalyser :: "nat option"
  liveConnect :: "nat call_result"
  catchTeardown :: teardown_env

text \<open>
  The suspended computations of the event loop: an async function waiting at an
  \<^verbatim>\<open>await\<close> (with the local variables it still needs), or a \<^verbatim>\<open>then\<close> callback of the
  session promise. The answer to the one-shot analysis call (\<^verbatim>\<open>response.text\<close>, or a
  failure) travels with the suspended \<^verbatim>\<open>fetchGrammarFeedback\<close>.
\<close>

datatype task =
    DisconnectAwaitSessionClose teardown_env
  | DisconnectAwaitContextClose teardown_env
  | ConnectAwaitResume nat connect_env
  | ConnectAwaitGetUserMedia nat connect_env
  | SessionThen nat
  | DispatchThen nat nat
  | FeedbackAwait jsstring "jsstring option call_result"

text \<open>
  The state: the three React state variables, the refs of the hook, and the part of
  the platform the hook talks to: one monotone clock read by \<^verbatim>\<open>Date.now()\<close> and by the
  timer queue, the pending timers (handle and due time), the payloads handed to
  \<^verbatim>\<open>sendRealtimeInput\<close> (session and payload), the analysis requests issued (text and
  turn id), the suspended computations, the number of promise rejections nobody
  handles, and the credential \<^verbatim>\<open>process.env.API_KEY\<close>. A state updater is applied when
  it is issued, so the time stamp of a new turn is the clock reading of the event
  that creates it (the source reads the clock again when the updater runs, which can
  be later). Handles of timers, sessions and audio objects are numbers; every
  handle is truthy.
\<close>

record world =
  status :: ConnectionState
  turns :: "Turn list"
  audioAnalyser :: "nat option"
  audioContextRef :: "nat option"
  streamRef :: "nat option"
  processorRef :: "nat option"
  sourceRef :: "nat option"
  activeSessionRef :: "nat option"
  currentTurnIdRef :: "jsstring option"
  currentInputTransRef :: jsstring
  silenceTimerRef :: "nat option"
  clock :: nat
  timers :: "(nat \<times> nat) list"
  timerCount :: nat
  sent :: "(nat \<times> nat) list"
  requests :: "(jsstring \<times> jsstring) list"
  pool :: "task list"
  unhandledRejections :: nat
  API_KEY :: "jsstring option"

definition init :: "jsstring option \<Rightarrow> nat \<Rightarrow> world" where
  "init key t0 =
     \<lparr>status = DISCONNECTED, turns = [], audioAnalyser = None, audioContextRef = None,
      streamRef = None, processorRef = None, sourceRef = None, activeSessionRef = None,
      currentTurnIdRef = None, currentInputTransRef = [], silenceTimerRef = None,
      clock = t0, timers = [], timerCount = 0, sent = [], requests = [], pool = [],
      unhandledRejections = 0, API_KEY = key\<rparr>"

definition setTimeout :: "nat \<Rightarrow> world \<Rightarrow> nat \<times> world" where
  "setTimeout delay w =
     (let h = Suc (timerCount w)
      in (h, w\<lparr>timers := timers w @ [(h, clock w + delay)], timerCount := h\<rparr>))"

definition clearTimeout :: "nat \<Rightarrow> world \<Rightarrow> world" where
  "clearTimeout h w = w\<lparr>timers := filter (\<lambda>p. fst p \<noteq> h) (timers w)\<rparr>"

text \<open>How an async function's run ends: it returns, it suspends at an \<^verbatim>\<open>await\<close>, or an
  exception escapes it (its promise rejects). No caller in the hook awaits or catches,
  so the event loop keeps the suspended computation or counts the rejection.\<close>

datatype outcome = Done | Await task | Raise

definition settle :: "outcome \<times> world \<Rightarrow> world" where
  "settle r =
     (case r of
        (Done, w) \<Rightarrow> w
      | (Await t, w) \<Rightarrow> w\<lparr>pool := pool w @ [t]\<rparr>
      | (Raise, w) \<Rightarrow> w\<lparr>unhandledRejections := Suc (unhandledRejections w)\<rparr>)"

section \<open>The hook: \<open>disconnect\<close>\<close>

text \<open>
  \<open>disconnect\<close> runs the function from its call to its first \<^verbatim>\<open>await\<close> (or to its end).
  \<open>disconnect_from3\<close> continues with steps 3 and 4, \<open>disconnect_from5\<close> with step 5,
  \<open>disconnect_step6\<close> is step 6. Only steps 2 and 5 sit in a \<^verbatim>\<open>try\<close>.
\<close>

definition disconnect_step6 :: "world \<Rightarrow> world" where
  "disconnect_step6 w =
     w\<lparr>status := DISCONNECTED, audioAnalyser := None, currentTurnIdRef := None,
       currentInputTransRef := []\<rparr>"

definition disconnect_from5 :: "teardown_env \<Rightarrow> world \<Rightarrow> outcome \<times> world" where
  "disconnect_from5 te w =
     (case audioContextRef w of
        None \<Rightarrow> (Done, disconnect_step6 w)
      | Some ctx \<Rightarrow>
          if contextStateClosed te then (Done, disconnect_step6 (w\<lparr>audioContextRef := None\<rparr>))
          else (case contextClose te of
                  Thrown \<Rightarrow> (Done, disconnect_step6 (w\<lparr>audioContextRef := None\<rparr>))
                | _ \<Rightarrow> (Await (DisconnectAwaitContextClose te), w)))"

definition disconnect_from3 :: "teardown_env \<Rightarrow> world \<Rightarrow> outcome \<times> world" where
  "disconnect_from3 te w =
     (if streamRef w \<noteq> None \<and> trackStopThrows te then (Raise, w)
      else let w3 = w\<lparr>streamRef := None\<rparr> in
        if processorRef w3 \<noteq> None \<and> processorDisconnectThrows te then (Raise, w3)
        else let w4 = w3\<lparr>processorRef := None\<rparr> in
          if sourceRef w4 \<noteq> None \<and> sourceDisconnectThrows te then (Raise, w4)
          else disconnect_from5 te (w4\<lparr>sourceRef := None\<rparr>))"

definition disconnect :: "teardown_env \<Rightarrow> world \<Rightarrow> outcome \<times> world" where
  "disconnect te w =
     (let w1 = (case silenceTimerRef w of
                  None \<Rightarrow> w
                | Some h \<Rightarrow> (clearTimeout h w)\<lparr>silenceTimerRef := None\<rparr>)
      in case activeSessionRef w1 of
           None \<Rightarrow> disconnect_from3 te w1
         | Some session \<Rightarrow>
             (case sessionClose te of
                Thrown \<Rightarrow> disconnect_from3 te (w1\<lparr>activeSessionRef := None\<rparr>)
              | _ \<Rightarrow> (Await (DisconnectAwaitSessionClose te), w1)))"

section \<open>The hook: \<open>fetchGrammarFeedback\<close>\<close>

definition errorFeedback :: updates where
  "errorFeedback =
     no_updates\<lparr>new_modelResponse := Some (lit ''Error generating feedback. Please try again.''),
                new_isComplete := Some True\<rparr>"

text \<open>\<open>fetchGrammarFeedback\<close> runs the function up to \<^verbatim>\<open>await ai.models.generateContent\<close>;
  \<open>feedback_settled\<close> is the rest, run when that promise settles.\<close>

definition fetchGrammarFeedback ::
  "jsstring option call_result \<Rightarrow> jsstring \<Rightarrow> jsstring \<Rightarrow> world \<Rightarrow> outcome \<times> world" where
  "fetchGrammarFeedback fe text turnId w =
     (if \<not> truthy (API_KEY w) \<or> trim text = [] then (Done, w)
      else case fe of
             Thrown \<Rightarrow> (Done, w\<lparr>turns := updateTurn turnId errorFeedback (turns w)\<rparr>)
           | _ \<Rightarrow> (Await (FeedbackAwait turnId fe), w\<lparr>requests := requests w @ [(text, turnId)]\<rparr>))"

definition feedback_settled :: "jsstring \<Rightarrow> jsstring option call_result \<Rightarrow> world \<Rightarrow> world" where
  "feedback_settled turnId fe w =
     (case fe of
        Fulfilled feedback \<Rightarrow>
          (case feedback of
             None \<Rightarrow> w
           | Some f \<Rightarrow>
               if f \<noteq> [] then
                 w\<lparr>turns := updateTurn turnId
                      (no_updates\<lparr>new_modelResponse := Some f, new_isComplete := Some True\<rparr>)
                      (turns w)\<rparr>
               else w)
      | _ \<Rightarrow> w\<lparr>turns := updateTurn turnId errorFeedback (turns w)\<rparr>)"

section \<open>The hook: \<open>connect\<close> and the session callbacks\<close>

text \<open>
  \<open>connect\<close> runs the function up to \<^verbatim>\<open>await audioContext.resume()\<close>,
  \<open>connect_after_resume\<close> continues up to \<^verbatim>\<open>await getUserMedia\<close>, and
  \<open>connect_after_getUserMedia\<close> is the rest. Every throw and every rejected \<^verbatim>\<open>await\<close>
  inside the \<^verbatim>\<open>try\<close> goes to the \<^verbatim>\<open>catch\<close> block. The session promise is not awaited: when
  it fulfils, its \<^verbatim>\<open>then\<close> callback stores the session; when it rejects, nobody handles
  the rejection.
\<close>

text \<open>The \<^verbatim>\<open>catch\<close> block of \<open>connect\<close> and the \<^verbatim>\<open>onerror\<close> callback: \<^verbatim>\<open>disconnect()\<close> is
  called and not awaited, then \<^verbatim>\<open>setStatus(ERROR)\<close> runs.\<close>

definition disconnect_then_error :: "teardown_env \<Rightarrow> world \<Rightarrow> world" where
  "disconnect_then_error te w = (settle (disconnect te w))\<lparr>status := ERROR\<rparr>"

definition connect_after_getUserMedia :: "nat \<Rightarrow> connect_env \<Rightarrow> world \<Rightarrow> outcome \<times> world" where
  "connect_after_getUserMedia ctx ce w =
     (case getUserMedia ce of
        Fulfilled stream \<Rightarrow>
          (let w1 = w\<lparr>streamRef := Some stream\<rparr> in
           case createMediaStreamSource ce of
             None \<Rightarrow> (Done, disconnect_then_error (catchTeardown ce) w1)
           | Some source \<Rightarrow>
               (let w2 = w1\<lparr>sourceRef := Some source\<rparr> in
                case createAnalyser ce of
                  None \<Rightarrow> (Done, disconnect_then_error (catchTeardown ce) w2)
                | Some analyser \<Rightarrow>
                    (let w3 = w2\<lparr>audioAnalyser := Some analyser\<rparr> in
                     case liveConnect ce of
                       Thrown \<Rightarrow> (Done, disconnect_then_error (catchTeardown ce) w3)
                     | Rejected \<Rightarrow> (Raise, w3)
                     | Fulfilled session \<Rightarrow> (Await (SessionThen session), w3))))
      | _ \<Rightarrow> (Done, disconnect_then_error (catchTeardown ce) w))"

definition connect_after_resume :: "nat \<Rightarrow> connect_env \<Rightarrow> world \<Rightarrow> outcome \<times> world" where
  "connect_after_resume ctx ce w =
     (case contextResume ce of
        Fulfilled _ \<Rightarrow>
          (let w1 = w\<lparr>audioContextRef := Some ctx\<rparr> in
           case getUserMedia ce of
             Thrown \<Rightarrow> (Done, disconnect_then_error (catchTeardown ce) w1)
           | _ \<Rightarrow> (Await (ConnectAwaitGetUserMedia ctx ce), w1))
      | _ \<Rightarrow> (Done, disconnect_then_error (catchTeardown ce) w))"

definition connect :: "connect_env \<Rightarrow> world \<Rightarrow> outcome \<times> world" where
  "connect ce w =
     (if \<not> truthy (API_KEY w) then (Done, w)
      else let w1 = w\<lparr>status := CONNECTING\<rparr> in
        case newAudioContext ce of
          None \<Rightarrow> (Done, disconnect_then_error (catchTeardown ce) w1)
        | Some ctx \<Rightarrow>
            (case contextResume ce of
               Thrown \<Rightarrow> (Done, disconnect_then_error (catchTeardown ce) w1)
             | _ \<Rightarrow> (Await (ConnectAwaitResume ctx ce), w1)))"

text \<open>\<^verbatim>\<open>onopen\<close>, with the handle of the new script processor (\<open>None\<close>: creating it throws).\<close>

definition onopen :: "nat option \<Rightarrow> world \<Rightarrow> world" where
  "onopen processor w =
     (let w1 = w\<lparr>status := CONNECTED\<rparr>
      in case processor of None \<Rightarrow> w1 | Some p \<Rightarrow> w1\<lparr>processorRef := Some p\<rparr>)"

text \<open>\<^verbatim>\<open>onaudioprocess\<close>, with the state the audio context reports, the session of the
  session promise the processor was created with, and the encoded block. \<open>dispatch\<close> is
  the \<^verbatim>\<open>then\<close> callback it registers.\<close>

definition onaudioprocess :: "bool \<Rightarrow> nat \<Rightarrow> nat \<Rightarrow> world \<Rightarrow> outcome \<times> world" where
  "onaudioprocess closed session pcmBlob w =
     (if audioContextRef w = None \<or> closed then (Done, w)
      else (Await (DispatchThen session pcmBlob), w))"

definition dispatch :: "nat \<Rightarrow> nat \<Rightarrow> world \<Rightarrow> world" where
  "dispatch session pcmBlob w =
     (if activeSessionRef w = Some session then w\<lparr>sent := sent w @ [(session, pcmBlob)]\<rparr>
      else w)"

text \<open>The callback of the silence timer, with the answer to the analysis call it may start.\<close>

definition silenceTimeout :: "jsstring option call_result \<Rightarrow> world \<Rightarrow> world" where
  "silenceTimeout fe w =
     (let finalTranscript = currentInputTransRef w
      in case currentTurnIdRef w of
           None \<Rightarrow> w
         | Some turnId \<Rightarrow>
             if turnId \<noteq> [] \<and> trim finalTranscript \<noteq> [] then
               (let w1 = w\<lparr>turns := updateTurn turnId
                              (no_updates\<lparr>new_userTranscript := Some finalTranscript\<rparr>) (turns w)\<rparr>;
                    w2 = settle (fetchGrammarFeedback fe finalTranscript turnId w1)
                in w2\<lparr>currentTurnIdRef := None, currentInputTransRef := []\<rparr>)
             else w)"

text \<open>\<^verbatim>\<open>onmessage\<close>, with \<^verbatim>\<open>message.serverContent?.inputTranscription?.text\<close>.\<close>

definition onmessage :: "jsstring option \<Rightarrow> world \<Rightarrow> world" where
  "onmessage inputTxt w =
     (case inputTxt of
        None \<Rightarrow> w
      | Some txt \<Rightarrow>
          if txt = [] then w
          else
            (let w1 = (case silenceTimerRef w of None \<Rightarrow> w | Some h \<Rightarrow> clearTimeout h w);
                 w2 = (if \<not> truthy (currentTurnIdRef w1) then
                         (let newId = toString (clock w1)
                          in w1\<lparr>currentTurnIdRef := Some newId, currentInputTransRef := [],
                                turns := createTurn newId (clock w1) (turns w1)\<rparr>)
                       else w1);
                 w3 = w2\<lparr>currentInputTransRef := currentInputTransRef w2 @ txt\<rparr>;
                 (h, w4) = setTimeout 3000 w3
             in w4\<lparr>silenceTimerRef := Some h\<rparr>))"

definition onclose :: "teardown_env \<Rightarrow> world \<Rightarrow> world" where
  "onclose te w = (if activeSessionRef w \<noteq> None then settle (disconnect te w) else w)"

definition onerror :: "teardown_env \<Rightarrow> world \<Rightarrow> world" where
  "onerror te w = disconnect_then_error te w"

section \<open>The event loop\<close>

text \<open>\<open>resume t\<close> continues a suspended computation when what it waits for has settled.\<close>

fun resume :: "task \<Rightarrow> world \<Rightarrow> outcome \<times> world" where
  "resume (DisconnectAwaitSessionClose te) w = disconnect_from3 te (w\<lparr>activeSessionRef := None\<rparr>)"
| "resume (DisconnectAwaitContextClose te) w = (Done, disconnect_step6 (w\<lparr>audioContextRef := None\<rparr>))"
| "resume (ConnectAwaitResume ctx ce) w = connect_after_resume ctx ce w"
| "resume (ConnectAwaitGetUserMedia ctx ce) w = connect_after_getUserMedia ctx ce w"
| "resume (SessionThen session) w = (Done, w\<lparr>activeSessionRef := Some session\<rparr>)"
| "resume (DispatchThen session pcmBlob) w = (Done, dispatch session pcmBlob w)"
| "resume (FeedbackAwait turnId fe) w = (Done, feedback_settled turnId fe w)"

text \<open>
  One turn of the event loop. Time passes; a message arrives; the timer with handle
  \<open>h\<close> fires, which the platform does only when it is pending and due; an audio block
  is ready; the user interface calls \<open>connect\<close> or \<open>disconnect\<close>; the session reports
  open, close or error; the suspended computation at position \<open>i\<close> continues. An event
  the platform cannot deliver (a timer that is not due, a position beyond the pool)
  changes nothing.
\<close>

datatype event =
    Elapse nat
  | Message "jsstring option"
  | TimerFire nat "jsstring option call_result"
  | AudioProcess bool nat nat
  | CallConnect connect_env
  | CallDisconnect teardown_env
  | OnOpen "nat option"
  | OnClose teardown_env
  | OnError teardown_env
  | Resume nat

definition due :: "nat \<Rightarrow> world \<Rightarrow> bool" where
  "due h w \<longleftrightarrow> (case map_of (timers w) h of None \<Rightarrow> False | Some d \<Rightarrow> d \<le> clock w)"

fun step :: "event \<Rightarrow> world \<Rightarrow> world" where
  "step (Elapse dt) w = w\<lparr>clock := clock w + dt\<rparr>"
| "step (Message inputTxt) w = onmessage inputTxt w"
| "step (TimerFire h fe) w = (if due h w then silenceTimeout fe (clearTimeout h w) else w)"
| "step (AudioProcess closed session pcmBlob) w = settle (onaudioprocess closed session pcmBlob w)"
| "step (CallConnect ce) w = settle (connect ce w)"
| "step (CallDisconnect te) w = settle (disconnect te w)"
| "step (OnOpen processor) w = onopen processor w"
| "step (OnClose te) w = onclose te w"
| "step (OnError te) w = onerror te w"
| "step (Resume i) w =
     (if i < length (pool w)
      then settle (resume (pool w ! i) (w\<lparr>pool := take i (pool w) @ drop (Suc i) (pool w)\<rparr>))
      else w)"

fun run :: "event list \<Rightarrow> world \<Rightarrow> world" where
  "run [] w = w"
| "run (e # es) w = run es (step e w)"

text \<open>
  A computation that runs with nothing else in between: \<open>complete n r\<close> continues the
  outcome \<open>r\<close> through at most \<open>n\<close> suspensions. \<open>disconnect\<close> has two \<^verbatim>\<open>await\<close>s and
  \<open>fetchGrammarFeedback\<close> has one.
\<close>

fun complete :: "nat \<Rightarrow> outcome \<times> world \<Rightarrow> outcome \<times> world" where
  "complete (Suc n) (Await t, w) = complete n (resume t w)"
| "complete n r = r"

section \<open>Notions used in the statements\<close>

text \<open>The suspended computations that belong to a run of \<open>disconnect\<close>.\<close>

definition teardown_task :: "task \<Rightarrow> bool" where
  "teardown_task t =
     (case t of
        DisconnectAwaitSessionClose _ \<Rightarrow> True
      | DisconnectAwaitContextClose _ \<Rightarrow> True
      | _ \<Rightarrow> False)"

text \<open>The state a finished teardown leaves behind: connection state, analyser, every
  ref and the open-turn fields reset, the timer of the timer ref cancelled, and
  nothing else touched.\<close>

definition torn_down :: "world \<Rightarrow> world" where
  "torn_down w =
     w\<lparr>status := DISCONNECTED, audioAnalyser := None, audioContextRef := None,
       streamRef := None, processorRef := None, sourceRef := None, activeSessionRef := None,
       currentTurnIdRef := None, currentInputTransRef := [], silenceTimerRef := None,
       timers := (case silenceTimerRef w of
                    None \<Rightarrow> timers w
                  | Some h \<Rightarrow> filter (\<lambda>p. fst p \<noteq> h) (timers w))\<rparr>"

text \<open>The calls of steps 3 and 4, which sit in no \<^verbatim>\<open>try\<close>, do not throw.\<close>

definition releases :: "teardown_env \<Rightarrow> bool" where
  "releases te \<longleftrightarrow>
     \<not> trackStopThrows te \<and> \<not> processorDisconnectThrows te \<and> \<not> sourceDisconnectThrows te"

text \<open>Fragments \<open>a\<close>, \<open>b\<close>, \<open>c\<close> arriving 0 ms, 1000 ms and 1500 ms after the start.\<close>

definition three_fragments :: "jsstring \<Rightarrow> jsstring \<Rightarrow> jsstring \<Rightarrow> event list" where
  "three_fragments a b c =
     [Message (Some a), Elapse 1000, Message (Some b), Elapse 500, Message (Some c)]"

text \<open>A platform on which every call succeeds, and the state of the hook after a
  connect on it: the session promise has resolved and the session has reported open.\<close>

definition calm :: teardown_env where
  "calm = \<lparr>sessionClose = Fulfilled (), trackStopThrows = False,
            processorDisconnectThrows = False, sourceDisconnectThrows = False,
            contextStateClosed = False, contextClose = Fulfilled ()\<rparr>"

definition granted :: connect_env where
  "granted = \<lparr>newAudioContext = Some 1, contextResume = Fulfilled (), getUserMedia = Fulfilled 2,
               createMediaStreamSource = Some 3, createAnalyser = Some 4,
               liveConnect = Fulfilled 5, catchTeardown = calm\<rparr>"

definition connected :: world where
  "connected =
     run [CallConnect granted, Resume 0, Resume 0, Resume 0, OnOpen (Some 6)]
       (init (Some (lit ''key'')) 0)"

text \<open>
  \<open>keeps_identities ts ts'\<close>: the sequence \<open>ts'\<close> is at least as long as \<open>ts\<close>, and at every
  position of \<open>ts\<close> it holds a turn with the same id and the same time stamp.
  \<open>feedback_write turnId ts ts'\<close>: \<open>ts'\<close> has the length of \<open>ts\<close>, every position keeps its
  id, transcript and time stamp, and the only position that may differ at all is the
  first one whose turn has the id \<open>turnId\<close>.
\<close>

definition keeps_identities :: "Turn list \<Rightarrow> Turn list \<Rightarrow> bool" where
  "keeps_identities ts ts' \<longleftrightarrow>
     length ts \<le> length ts'
     \<and> (\<forall>j < length ts. id' (ts' ! j) = id' (ts ! j) \<and> timestamp (ts' ! j) = timestamp (ts ! j))"

definition feedback_write :: "jsstring \<Rightarrow> Turn list \<Rightarrow> Turn list \<Rightarrow> bool" where
  "feedback_write turnId ts ts' \<longleftrightarrow>
     length ts' = length ts
     \<and> (\<forall>j < length ts.
          id' (ts' ! j) = id' (ts ! j) \<and> userTranscript (ts' ! j) = userTranscript (ts ! j)
          \<and> timestamp (ts' ! j) = timestamp (ts ! j)
          \<and> (ts' ! j \<noteq> ts ! j \<longrightarrow> findIndex (\<lambda>t. id' t = turnId) ts = Some j))"

text \<open>Reading a decimal numeral back, the inverse of \<open>toString\<close>.\<close>

definition parseDecimal :: "jsstring \<Rightarrow> nat" where
  "parseDecimal s = foldl (\<lambda>a c. 10 * a + (unat c - 48)) 0 s"

text \<open>
  The events of transcription: time passes, a message arrives, a timer fires, a
  pending analysis request settles. The open turns of a sequence are the turns that are
  created and not finalized: a turn is created with an empty transcript, and the only
  write to \<open>userTranscript\<close> is the finalization in the timer callback, which writes a
  text that is not empty.
\<close>

definition transcription_event :: "event \<Rightarrow> bool" where
  "transcription_event e =
     (case e of Elapse _ \<Rightarrow> True | Message _ \<Rightarrow> True | TimerFire _ _ \<Rightarrow> True | Resume _ \<Rightarrow> True
      | _ \<Rightarrow> False)"

definition open_turns :: "Turn list \<Rightarrow> Turn list" where
  "open_turns ts = filter (\<lambda>t. userTranscript t = []) ts"

definition feedback_task :: "task \<Rightarrow> bool" where
  "feedback_task t = (case t of FeedbackAwait _ _ \<Rightarrow> True | _ \<Rightarrow> False)"

text \<open>
  The invariant of the turn segmentation, for the proofs. Every turn's id is the
  decimal numeral of its time stamp, which is not in the future; time stamps are
  distinct; every pending timer is due at least 3000 ms after every turn was created,
  and is the one the timer ref holds; with no open-turn id, every turn is finalized
  and at least 3000 ms old; with an open-turn id, that id is not empty and the turns
  without transcript are exactly those with that id; only analysis requests are
  pending.
\<close>

definition seg_inv :: "world \<Rightarrow> bool" where
  "seg_inv w \<longleftrightarrow>
     (\<forall>t \<in> set (turns w). id' t = toString (timestamp t) \<and> timestamp t \<le> clock w)
     \<and> distinct (map timestamp (turns w))
     \<and> (\<forall>p \<in> set (timers w). \<forall>t \<in> set (turns w). timestamp t + 3000 \<le> snd p)
     \<and> (case currentTurnIdRef w of
          None \<Rightarrow> \<forall>t \<in> set (turns w). userTranscript t \<noteq> [] \<and> timestamp t + 3000 \<le> clock w
        | Some i \<Rightarrow> i \<noteq> [] \<and> (\<forall>t \<in> set (turns w). userTranscript t = [] \<longleftrightarrow> id' t = i))
     \<and> (\<forall>k \<in> set (pool w). feedback_task k)
     \<and> (\<forall>p \<in> set (timers w). silenceTimerRef w = Some (fst p))"

text \<open>
  Everything the teardown resets: connection state, analyser, the refs, the open-turn
  fields. \<open>teardown_event\<close>: a call of \<open>disconnect\<close> on which the unguarded calls do not
  throw, or the continuation of a suspended computation.
\<close>

definition cleared :: "world \<Rightarrow> bool" where
  "cleared w \<longleftrightarrow>
     status w = DISCONNECTED \<and> audioAnalyser w = None \<and> audioContextRef w = None
     \<and> streamRef w = None \<and> processorRef w = None \<and> sourceRef w = None
     \<and> activeSessionRef w = None \<and> currentTurnIdRef w = None \<and> currentInputTransRef w = []
     \<and> silenceTimerRef w = None"

definition teardown_event :: "event \<Rightarrow> bool" where
  "teardown_event e =
     (case e of CallDisconnect te \<Rightarrow> releases te | Resume _ \<Rightarrow> True | _ \<Rightarrow> False)"

text \<open>
  The invariant of overlapping teardowns, for the proofs: the timer ref is empty, \<open>n\<close>
  rejections are unhandled, a teardown waiting for the session to close will not
  throw later, a teardown waiting for the audio context to close has released
  session, stream and nodes, and when nothing is pending everything is reset.
\<close>

definition teardown_pending :: "world \<Rightarrow> task \<Rightarrow> bool" where
  "teardown_pending w t =
     (case t of
        DisconnectAwaitSessionClose te \<Rightarrow> releases te
      | DisconnectAwaitContextClose te \<Rightarrow>
          activeSessionRef w = None \<and> streamRef w = None \<and> processorRef w = None
          \<and> sourceRef w = None
      | _ \<Rightarrow> False)"

definition teardown_inv :: "nat \<Rightarrow> world \<Rightarrow> bool" where
  "teardown_inv n w \<longleftrightarrow>
     silenceTimerRef w = None \<and> unhandledRejections w = n
     \<and> list_all (teardown_pending w) (pool w)
     \<and> (pool w = [] \<longrightarrow> cleared w)"

text \<open>A platform on which the user denies the microphone.\<close>

definition denied :: connect_env where
  "denied = granted\<lparr>getUserMedia := Rejected\<rparr>"

text \<open>A platform on which closing the session and closing the audio context both fail.\<close>

definition closing_fails :: teardown_env where
  "closing_fails = calm\<lparr>sessionClose := Rejected, contextClose := Thrown\<rparr>"

text \<open>
  The suspended computations of a \<open>connect\<close>: the function waiting at one of its
  \<^verbatim>\<open>await\<close>s, or the callback that stores the session when the session promise
  fulfils. \<open>session_idle\<close>: the active session ref is empty and no \<open>connect\<close> is in
  flight. \<open>no_connect_call\<close>: any event but a call of \<open>connect\<close>.
\<close>

definition connect_task :: "task \<Rightarrow> bool" where
  "connect_task t =
     (case t of
        ConnectAwaitResume _ _ \<Rightarrow> True
      | ConnectAwaitGetUserMedia _ _ \<Rightarrow> True
      | SessionThen _ \<Rightarrow> True
      | _ \<Rightarrow> False)"

definition no_connect_call :: "event \<Rightarrow> bool" where
  "no_connect_call e = (case e of CallConnect _ \<Rightarrow> False | _ \<Rightarrow> True)"

definition session_idle :: "world \<Rightarrow> bool" where
  "session_idle w \<longleftrightarrow> activeSessionRef w = None \<and> list_all (\<lambda>t. \<not> connect_task t) (pool w)"

section \<open>Facts used in the proofs\<close>

lemma findIndex_Some_iff:
  "findIndex p xs = Some k \<longleftrightarrow> k < length xs \<and> p (xs ! k) \<and> (\<forall>j < k. \<not> p (xs ! j))"
proof (induction xs arbitrary: k)
  case Nil
  show ?case by simp
next
  case (Cons x xs)
  show ?case
  proof (cases "p x")
    case True
    then show ?thesis by (cases k) auto
  next
    case False
    show ?thesis
    proof (cases k)
      case 0
      with False show ?thesis by auto
    next
      case (Suc m)
      have "(\<forall>j < Suc m. \<not> p ((x # xs) ! j)) \<longleftrightarrow> (\<forall>j < m. \<not> p (xs ! j))"
        using False by (auto simp: less_Suc_eq_0_disj)
      with False Suc Cons.IH [of m] show ?thesis by auto
    qed
  qed
qed

lemma findIndex_None_iff: "findIndex p xs = None \<longleftrightarrow> (\<forall>x \<in> set xs. \<not> p x)"
  by (induction xs) auto

lemma length_updateTurn: "length (updateTurn i u ts) = length ts"
  by (simp add: updateTurn_def split: option.split)

lemma updateTurn_absent: "i \<notin> id' ` set ts \<Longrightarrow> updateTurn i u ts = ts"
proof -
  assume "i \<notin> id' ` set ts"
  then have "findIndex (\<lambda>t. id' t = i) ts = None"
    by (auto simp: findIndex_None_iff)
  then show ?thesis by (simp add: updateTurn_def)
qed

lemma updateTurn_nth_other:
  "findIndex (\<lambda>t. id' t = i) ts \<noteq> Some j \<Longrightarrow> updateTurn i u ts ! j = ts ! j"
  by (auto simp: updateTurn_def split: option.split)

lemma updateTurn_nth_found:
  "findIndex (\<lambda>t. id' t = i) ts = Some k \<Longrightarrow> updateTurn i u ts ! k = spread (ts ! k) u"
proof -
  assume f: "findIndex (\<lambda>t. id' t = i) ts = Some k"
  then have "k < length ts" by (simp add: findIndex_Some_iff)
  with f show ?thesis by (simp add: updateTurn_def)
qed

lemma map_id_updateTurn:
  assumes "new_id u = None \<or> new_id u = Some i"
  shows "map id' (updateTurn i u ts) = map id' ts"
proof (cases "findIndex (\<lambda>t. id' t = i) ts")
  case None
  then show ?thesis by (simp add: updateTurn_def)
next
  case (Some k)
  then have k: "k < length ts" "id' (ts ! k) = i"
    by (simp_all add: findIndex_Some_iff)
  have "id' (spread (ts ! k) u) = id' (ts ! k)"
    using assms k by (auto simp: spread_def)
  then have "(map id' ts)[k := id' (spread (ts ! k) u)] = map id' ts"
    using k by (simp add: list_update_same_conv)
  with Some show ?thesis by (simp add: updateTurn_def map_update)
qed

lemma map_timestamp_updateTurn:
  assumes "new_timestamp u = None"
  shows "map timestamp (updateTurn i u ts) = map timestamp ts"
proof (cases "findIndex (\<lambda>t. id' t = i) ts")
  case None
  then show ?thesis by (simp add: updateTurn_def)
next
  case (Some k)
  then have k: "k < length ts"
    by (simp add: findIndex_Some_iff)
  have "timestamp (spread (ts ! k) u) = timestamp (ts ! k)"
    using assms by (simp add: spread_def)
  then have "(map timestamp ts)[k := timestamp (spread (ts ! k) u)] = map timestamp ts"
    using k by (simp add: list_update_same_conv)
  with Some show ?thesis by (simp add: updateTurn_def map_update)
qed

lemma trim_empty_iff: "trim s = [] \<longleftrightarrow> (\<forall>c \<in> set s. isWhiteSpace c)"
proof
  assume "trim s = []"
  then have a: "\<forall>x \<in> set (dropWhile isWhiteSpace s). isWhiteSpace x"
    by (simp add: trim_def dropWhile_eq_Nil_conv)
  have "dropWhile isWhiteSpace s = []"
  proof (rule ccontr)
    assume n: "dropWhile isWhiteSpace s \<noteq> []"
    then have "\<not> isWhiteSpace (hd (dropWhile isWhiteSpace s))" by (rule hd_dropWhile)
    moreover have "hd (dropWhile isWhiteSpace s) \<in> set (dropWhile isWhiteSpace s)"
      using n by simp
    ultimately show False using a by blast
  qed
  then show "\<forall>c \<in> set s. isWhiteSpace c" by (simp add: dropWhile_eq_Nil_conv)
next
  assume "\<forall>c \<in> set s. isWhiteSpace c"
  then have "dropWhile isWhiteSpace s = []" by (simp add: dropWhile_eq_Nil_conv)
  then show "trim s = []" unfolding trim_def by (simp del: dropWhile_eq_Nil_conv)
qed

lemma toString_not_Nil [simp]: "toString n \<noteq> []"
  by (subst toString.simps) simp

lemma trim_lit_blank: "trim (lit '' '') = []"
  by (simp add: trim_def lit_def isWhiteSpace_def)

lemma turns_clearTimeout [simp]: "turns (clearTimeout h w) = turns w"
  by (simp add: clearTimeout_def)

lemma turns_disconnect_step6 [simp]: "turns (disconnect_step6 w) = turns w"
  by (simp add: disconnect_step6_def)

lemma turns_disconnect_from5: "turns (snd (disconnect_from5 te w)) = turns w"
  by (simp add: disconnect_from5_def split: option.split call_result.split)

lemma turns_disconnect_from3: "turns (snd (disconnect_from3 te w)) = turns w"
  by (simp add: disconnect_from3_def Let_def turns_disconnect_from5)

lemma turns_disconnect: "turns (snd (disconnect te w)) = turns w"
  by (simp add: disconnect_def Let_def turns_disconnect_from3 split: option.split call_result.split)

lemma turns_settle [simp]: "turns (settle r) = turns (snd r)"
  by (cases r) (simp add: settle_def split: outcome.split)

lemma turns_resume_teardown: "teardown_task t \<Longrightarrow> turns (snd (resume t w)) = turns w"
  by (cases t) (simp_all add: teardown_task_def turns_disconnect_from3)

lemma from5_outcome: "fst (disconnect_from5 te w) = Done \<or> fst (disconnect_from5 te w) = Await (DisconnectAwaitContextClose te)"
  by (simp add: disconnect_from5_def split: option.split call_result.split)

lemma from3_outcome: "fst (disconnect_from3 te w) \<in> {Done, Raise, Await (DisconnectAwaitContextClose te)}"
  using from5_outcome by (auto simp add: disconnect_from3_def Let_def)

lemma disconnect_outcome: "fst (disconnect te w) \<in> {Done, Raise, Await (DisconnectAwaitContextClose te),  Await (DisconnectAwaitSessionClose te)}"
  using from3_outcome by (auto simp add: disconnect_def Let_def split: option.split call_result.split)

lemma complete_from3: "fst (complete (Suc n) (disconnect_from3 te w)) \<in> {Done, Raise}"
proof -
  obtain r w' where e: "disconnect_from3 te w = (r, w')" by (cases "disconnect_from3 te w")
  with from3_outcome [of te w] have "r \<in> {Done, Raise, Await (DisconnectAwaitContextClose te)}" by simp
  with e show ?thesis by auto
qed

lemma complete_disconnect: "fst (complete 2 (disconnect te w)) \<in> {Done, Raise}"
proof -
  obtain r w' where e: "disconnect te w = (r, w')" by (cases "disconnect te w")
  with disconnect_outcome [of te w] have "r \<in> {Done, Raise, Await (DisconnectAwaitContextClose te),  Await (DisconnectAwaitSessionClose te)}" by simp
  with e complete_from3 [of 0 te "w'\<lparr>activeSessionRef := None\<rparr>"] show ?thesis by (auto simp: numeral_2_eq_2)
qed

lemma complete_from5:
  "complete (Suc n) (disconnect_from5 te w) = (Done, disconnect_step6 (w\<lparr>audioContextRef := None\<rparr>))"
  by (cases w) (simp add: disconnect_from5_def disconnect_step6_def split: option.split call_result.split)

lemma complete_from3_releases:
  "releases te \<Longrightarrow> complete (Suc n) (disconnect_from3 te w) =
     (Done, disconnect_step6 (w\<lparr>streamRef := None, processorRef := None, sourceRef := None, audioContextRef := None\<rparr>))"
  by (simp add: disconnect_from3_def releases_def Let_def complete_from5)

lemma complete_disconnect_releases:
  "releases te \<Longrightarrow> complete 2 (disconnect te w) = (Done, torn_down w)"
  apply (simp add: disconnect_def Let_def numeral_2_eq_2 complete_from3_releases split: option.split call_result.split)
  apply (cases w)
  apply (auto simp add: torn_down_def disconnect_step6_def clearTimeout_def)
  done

lemma session_from5 [simp]: "activeSessionRef (snd (disconnect_from5 te w)) = activeSessionRef w"
  by (simp add: disconnect_from5_def disconnect_step6_def split: option.split call_result.split)

lemma session_from3 [simp]: "activeSessionRef (snd (disconnect_from3 te w)) = activeSessionRef w"
  by (simp add: disconnect_from3_def Let_def)

lemma session_complete_from3: "activeSessionRef (snd (complete n (disconnect_from3 te w))) = activeSessionRef w"
proof -
  obtain r w' where e: "disconnect_from3 te w = (r, w')" by (cases "disconnect_from3 te w")
  have a: "activeSessionRef w' = activeSessionRef w" using session_from3 [of te w] e by simp
  have "r \<in> {Done, Raise, Await (DisconnectAwaitContextClose te)}" using from3_outcome [of te w] e by simp
  with e a show ?thesis by (cases n) (auto simp: disconnect_step6_def)
qed

lemma session_complete_disconnect: "activeSessionRef (snd (complete 2 (disconnect te w))) = None"
  by (simp add: disconnect_def Let_def numeral_2_eq_2 session_complete_from3 clearTimeout_def
      split: option.split call_result.split)

lemma turns_complete_from3: "turns (snd (complete n (disconnect_from3 te w))) = turns w"
proof -
  obtain r w' where e: "disconnect_from3 te w = (r, w')" by (cases "disconnect_from3 te w")
  have a: "turns w' = turns w" using turns_disconnect_from3 [of te w] e by simp
  have "r \<in> {Done, Raise, Await (DisconnectAwaitContextClose te)}"
    using from3_outcome [of te w] e by simp
  with e a show ?thesis by (cases n) auto
qed

lemma turns_complete_disconnect: "turns (snd (complete 2 (disconnect te w))) = turns w"
  by (simp add: disconnect_def Let_def numeral_2_eq_2 turns_complete_from3
      split: option.split call_result.split)

lemma updateTurn_found:
  "findIndex (\<lambda>t. id' t = i) ts = Some k \<Longrightarrow> updateTurn i u ts = ts[k := spread (ts ! k) u]"
  by (simp add: updateTurn_def)

lemma spread_feedback:
  "spread t (no_updates\<lparr>new_modelResponse := Some f, new_isComplete := Some True\<rparr>)
     = t\<lparr>modelResponse := f, isComplete := True\<rparr>"
  by (simp add: spread_def no_updates_def)

lemma run_append: "run (es @ fs) w = run fs (run es w)"
  by (induction es arbitrary: w) simp_all

lemma three_fragments_world:
  assumes "a \<noteq> []" "b \<noteq> []" "c \<noteq> []"
  shows "run (three_fragments a b c) (init key t0) =
     (init key t0)\<lparr>turns := [\<lparr>id' = toString t0, userTranscript = [], modelResponse = [],
                                          isComplete = False, timestamp = t0\<rparr>],
                 currentTurnIdRef := Some (toString t0), currentInputTransRef := a @ b @ c,
                 silenceTimerRef := Some 3, clock := t0 + 1500, timers := [(3, t0 + 4500)], timerCount := 3\<rparr>"
  using assms
  by (simp add: three_fragments_def onmessage_def init_def truthy_def createTurn_def
      setTimeout_def clearTimeout_def Let_def)

lemma first_fragment_world:
  assumes "a \<noteq> []"
  shows "run [Message (Some a)] (init key t0) =
     (init key t0)\<lparr>turns := [\<lparr>id' = toString t0, userTranscript = [], modelResponse = [],
                                          isComplete = False, timestamp = t0\<rparr>],
                 currentTurnIdRef := Some (toString t0), currentInputTransRef := a,
                 silenceTimerRef := Some 1, timers := [(1, t0 + 3000)], timerCount := 1\<rparr>"
  using assms
  by (simp add: onmessage_def init_def truthy_def createTurn_def
      setTimeout_def clearTimeout_def Let_def)

lemma two_fragments_world:
  assumes "a \<noteq> []" "b \<noteq> []"
  shows "run [Message (Some a), Elapse 1000, Message (Some b)] (init key t0) =
     (init key t0)\<lparr>turns := [\<lparr>id' = toString t0, userTranscript = [], modelResponse = [],
                                          isComplete = False, timestamp = t0\<rparr>],
                 currentTurnIdRef := Some (toString t0), currentInputTransRef := a @ b,
                 silenceTimerRef := Some 2, clock := t0 + 1000, timers := [(2, t0 + 4000)], timerCount := 2\<rparr>"
  using assms
  by (simp add: onmessage_def init_def truthy_def createTurn_def
      setTimeout_def clearTimeout_def Let_def)

lemma not_due_step: "\<not> due h w \<Longrightarrow> step (TimerFire h fe) w = w"
  by simp

lemma turns_fetch: "turns (snd (fetchGrammarFeedback fe text turnId w)) =
   (if truthy (API_KEY w) \<and> trim text \<noteq> [] \<and> fe = Thrown then updateTurn turnId errorFeedback (turns w) else turns w)"
  by (simp add: fetchGrammarFeedback_def split: call_result.split)

lemma userTranscript_spread_error [simp]: "userTranscript (spread t errorFeedback) = userTranscript t"
  by (simp add: spread_def errorFeedback_def no_updates_def)

lemma keeps_identities_refl [simp]: "keeps_identities ts ts"
  by (simp add: keeps_identities_def)

lemma keeps_identities_trans:
  "keeps_identities ts ts' \<Longrightarrow> keeps_identities ts' ts'' \<Longrightarrow> keeps_identities ts ts''"
  by (auto simp: keeps_identities_def)

lemma keeps_identities_updateTurn:
  assumes "new_id u = None" "new_timestamp u = None"
  shows "keeps_identities ts (updateTurn i u ts)"
proof -
  have a: "map id' (updateTurn i u ts) = map id' ts"
    using assms by (simp add: map_id_updateTurn)
  have b: "map timestamp (updateTurn i u ts) = map timestamp ts"
    using assms by (simp add: map_timestamp_updateTurn)
  have "id' (updateTurn i u ts ! j) = id' (ts ! j)" if "j < length ts" for j
    using that nth_map [of j "updateTurn i u ts" id'] nth_map [of j ts id'] a
    by (simp add: length_updateTurn)
  moreover have "timestamp (updateTurn i u ts ! j) = timestamp (ts ! j)" if "j < length ts" for j
    using that nth_map [of j "updateTurn i u ts" timestamp] nth_map [of j ts timestamp] b
    by (simp add: length_updateTurn)
  ultimately show ?thesis by (simp add: keeps_identities_def length_updateTurn)
qed

lemma keeps_identities_createTurn: "keeps_identities ts (createTurn i now ts)"
  by (simp add: keeps_identities_def createTurn_def nth_append)

lemma errorFeedback_keys [simp]:
  "new_id errorFeedback = None" "new_timestamp errorFeedback = None"
  "new_userTranscript errorFeedback = None"
  by (simp_all add: errorFeedback_def no_updates_def)

lemma feedback_write_refl [simp]: "feedback_write i ts ts"
  by (simp add: feedback_write_def)

lemma feedback_write_updateTurn:
  assumes "new_id u = None" "new_timestamp u = None" "new_userTranscript u = None"
  shows "feedback_write i ts (updateTurn i u ts)"
proof (cases "findIndex (\<lambda>t. id' t = i) ts")
  case None
  then show ?thesis by (simp add: updateTurn_def)
next
  case (Some k)
  then have k: "k < length ts" by (simp add: findIndex_Some_iff)
  show ?thesis
    using Some k assms
    by (auto simp: feedback_write_def updateTurn_def nth_list_update spread_def)
qed

lemma feedback_write_settled: "feedback_write turnId (turns w) (turns (feedback_settled turnId fe w))"
  by (simp add: feedback_settled_def feedback_write_updateTurn no_updates_def
      split: call_result.split option.split)

lemma keeps_identities_settled: "keeps_identities (turns w) (turns (feedback_settled turnId fe w))"
  by (simp add: feedback_settled_def keeps_identities_updateTurn no_updates_def
      split: call_result.split option.split)

lemma feedback_write_fetch:
  "feedback_write turnId (turns w) (turns (snd (fetchGrammarFeedback fe text turnId w)))"
  by (simp add: fetchGrammarFeedback_def feedback_write_updateTurn split: call_result.split)

lemma keeps_identities_fetch:
  "keeps_identities (turns w) (turns (snd (fetchGrammarFeedback fe text turnId w)))"
  by (simp add: fetchGrammarFeedback_def keeps_identities_updateTurn split: call_result.split)

lemma turns_disconnect_then_error [simp]: "turns (disconnect_then_error te w) = turns w"
  by (simp add: disconnect_then_error_def turns_disconnect)

lemma turns_connect_after_getUserMedia [simp]:
  "turns (snd (connect_after_getUserMedia ctx ce w)) = turns w"
  by (simp add: connect_after_getUserMedia_def Let_def split: call_result.split option.split)

lemma turns_connect_after_resume [simp]:
  "turns (snd (connect_after_resume ctx ce w)) = turns w"
  by (simp add: connect_after_resume_def Let_def split: call_result.split option.split)

lemma turns_connect [simp]: "turns (snd (connect ce w)) = turns w"
  by (simp add: connect_def Let_def split: call_result.split option.split)

lemma turns_onopen [simp]: "turns (onopen p w) = turns w"
  by (simp add: onopen_def Let_def split: option.split)

lemma turns_onaudioprocess [simp]: "turns (snd (onaudioprocess c s b w)) = turns w"
  by (simp add: onaudioprocess_def)

lemma turns_dispatch [simp]: "turns (dispatch s b w) = turns w"
  by (simp add: dispatch_def)

lemma turns_onclose [simp]: "turns (onclose te w) = turns w"
  by (simp add: onclose_def turns_disconnect)

lemma turns_onerror [simp]: "turns (onerror te w) = turns w"
  by (simp add: onerror_def)

lemma keeps_identities_silenceTimeout:
  "keeps_identities (turns w) (turns (silenceTimeout fe w))"
proof -
  have "keeps_identities (turns w)
          (turns (snd (fetchGrammarFeedback fe tr i
             (w\<lparr>turns := updateTurn i (no_updates\<lparr>new_userTranscript := Some tr\<rparr>) (turns w)\<rparr>))))"
    for i tr
  proof -
    let ?u = "no_updates\<lparr>new_userTranscript := Some tr\<rparr>"
    have a: "keeps_identities (turns w) (updateTurn i ?u (turns w))"
      by (rule keeps_identities_updateTurn) (simp_all add: no_updates_def)
    have b: "keeps_identities (updateTurn i ?u (turns w))
               (turns (snd (fetchGrammarFeedback fe tr i (w\<lparr>turns := updateTurn i ?u (turns w)\<rparr>))))"
      using keeps_identities_fetch [of "w\<lparr>turns := updateTurn i ?u (turns w)\<rparr>" fe tr i] by simp
    from a b show ?thesis by (rule keeps_identities_trans)
  qed
  then show ?thesis
    by (simp add: silenceTimeout_def Let_def split: option.split)
qed

lemma keeps_identities_onmessage:
  "keeps_identities (turns w) (turns (onmessage m w))"
  by (simp add: onmessage_def Let_def setTimeout_def keeps_identities_createTurn
      split: option.split prod.split)

lemma keeps_identities_resume:
  "keeps_identities (turns w) (turns (snd (resume t w)))"
  by (cases t) (simp_all add: turns_disconnect_from3 keeps_identities_settled)

lemma keeps_identities_step: "keeps_identities (turns w) (turns (step e w))"
proof (cases e)
  case (TimerFire h fe)
  show ?thesis
    using keeps_identities_silenceTimeout [of "clearTimeout h w" fe]
    by (simp add: TimerFire)
next
  case (Resume i)
  show ?thesis
    using keeps_identities_resume [of "w\<lparr>pool := take i (pool w) @ drop (Suc i) (pool w)\<rparr>" "pool w ! i"]
    by (simp add: Resume)
qed (simp_all add: keeps_identities_onmessage keeps_identities_silenceTimeout turns_disconnect)

lemma keeps_identities_run: "keeps_identities (turns w) (turns (run es w))"
proof (induction es arbitrary: w)
  case Nil
  show ?case by simp
next
  case (Cons e es)
  show ?case
    using keeps_identities_trans [OF keeps_identities_step [of w e] Cons.IH [of "step e w"]]
    by simp
qed

lemma unat_digit: "d < 10 \<Longrightarrow> unat (digit d) - 48 = d"
  unfolding digit_def unat_of_nat by simp

lemma parseDecimal_snoc: "parseDecimal (s @ [c]) = 10 * parseDecimal s + (unat c - 48)"
  by (simp add: parseDecimal_def)

lemma parseDecimal_single: "parseDecimal [c] = unat c - 48"
  by (simp add: parseDecimal_def)

lemma parseDecimal_toString: "parseDecimal (toString n) = n"
proof (induction n rule: toString.induct)
  case (1 n)
  show ?case
  proof (cases "n < 10")
    case True
    then have "toString n = [digit n]"
      by (subst toString.simps) simp
    with True show ?thesis
      by (simp add: parseDecimal_single unat_digit)
  next
    case False
    then have e: "toString n = toString (n div 10) @ [digit (n mod 10)]"
      by (subst toString.simps) simp
    from False 1 have "parseDecimal (toString (n div 10)) = n div 10" by simp
    then show ?thesis
      by (simp add: e parseDecimal_snoc unat_digit)
  qed
qed

lemma toString_inj: "toString m = toString n \<Longrightarrow> m = n"
proof -
  assume "toString m = toString n"
  then have "parseDecimal (toString m) = parseDecimal (toString n)" by (simp only:)
  then show "m = n" by (simp only: parseDecimal_toString)
qed

lemma updateTurn_Nil [simp]: "updateTurn i u [] = []"
  by (simp add: updateTurn_def)

lemma updateTurn_Cons:
  "updateTurn i u (t # ts) = (if id' t = i then spread t u # ts else t # updateTurn i u ts)"
  by (simp add: updateTurn_def split: option.split)

lemma updateTurn_distinct:
  "distinct (map id' ts) \<Longrightarrow>
     updateTurn i u ts = map (\<lambda>t. if id' t = i then spread t u else t) ts"
proof (induction ts)
  case Nil
  show ?case by simp
next
  case (Cons t ts)
  show ?case
  proof (cases "id' t = i")
    case True
    with Cons.prems have "\<forall>x \<in> set ts. id' x \<noteq> i" by (force simp: image_iff)
    then have "map (\<lambda>t. if id' t = i then spread t u else t) ts = ts"
      by (simp add: map_idI)
    with True show ?thesis by (simp add: updateTurn_Cons)
  next
    case False
    with Cons show ?thesis by (simp add: updateTurn_Cons)
  qed
qed

lemma set_updateTurn:
  "x \<in> set (updateTurn i u ts) \<Longrightarrow> x \<in> set ts \<or> (\<exists>t \<in> set ts. id' t = i \<and> x = spread t u)"
  by (induction ts) (auto simp: updateTurn_Cons split: if_splits)

lemma seg_inv_init: "seg_inv (init key t0)"
  by (simp add: seg_inv_def init_def)

lemma seg_inv_distinct_ids: "seg_inv w \<Longrightarrow> distinct (map id' (turns w))"
proof -
  assume a: "seg_inv w"
  then have e: "map id' (turns w) = map toString (map timestamp (turns w))"
    by (simp add: seg_inv_def)
  have "inj_on toString (set (map timestamp (turns w)))"
    by (rule inj_onI) (rule toString_inj)
  with a show ?thesis
    unfolding e by (simp only: distinct_map seg_inv_def)
qed

lemma seg_inv_Elapse: "seg_inv w \<Longrightarrow> seg_inv (w\<lparr>clock := clock w + dt\<rparr>)"
  by (auto simp: seg_inv_def split: option.splits)

lemma seg_inv_turns_same:
  assumes "seg_inv w"
    and "map id' ts = map id' (turns w)"
    and "map timestamp ts = map timestamp (turns w)"
    and "map userTranscript ts = map userTranscript (turns w)"
  shows "seg_inv (w\<lparr>turns := ts\<rparr>)"
proof -
  have v: "map (\<lambda>t. (id' t, timestamp t, userTranscript t)) ts
         = map (\<lambda>t. (id' t, timestamp t, userTranscript t)) (turns w)"
    using assms(2,3,4)
    by (simp add: list_eq_iff_nth_eq)
  have ex: "\<exists>t' \<in> set (turns w). id' t' = id' t \<and> timestamp t' = timestamp t
              \<and> userTranscript t' = userTranscript t" if "t \<in> set ts" for t
  proof -
    from that have "(id' t, timestamp t, userTranscript t)
        \<in> set (map (\<lambda>t. (id' t, timestamp t, userTranscript t)) ts)"
      by force
    then have "(id' t, timestamp t, userTranscript t)
        \<in> set (map (\<lambda>t. (id' t, timestamp t, userTranscript t)) (turns w))"
      by (simp only: v)
    then show ?thesis by auto
  qed
  have c1: "\<forall>t \<in> set ts. id' t = toString (timestamp t) \<and> timestamp t \<le> clock w"
  proof
    fix t assume "t \<in> set ts"
    from ex [OF this] obtain t' where "t' \<in> set (turns w)" "id' t' = id' t"
      "timestamp t' = timestamp t" by blast
    with assms(1) show "id' t = toString (timestamp t) \<and> timestamp t \<le> clock w"
      unfolding seg_inv_def by metis
  qed
  have c2: "distinct (map timestamp ts)"
    using assms(1,3) by (simp add: seg_inv_def)
  have c3: "\<forall>p \<in> set (timers w). \<forall>t \<in> set ts. timestamp t + 3000 \<le> snd p"
  proof (intro ballI)
    fix p t assume p: "p \<in> set (timers w)" and "t \<in> set ts"
    from ex [OF this(2)] obtain t' where "t' \<in> set (turns w)" "timestamp t' = timestamp t"
      by blast
    with assms(1) p show "timestamp t + 3000 \<le> snd p"
      unfolding seg_inv_def by metis
  qed
  have c4: "\<forall>t \<in> set ts. userTranscript t \<noteq> [] \<and> timestamp t + 3000 \<le> clock w"
    if "currentTurnIdRef w = None"
  proof
    fix t assume "t \<in> set ts"
    from ex [OF this] obtain t' where t': "t' \<in> set (turns w)"
      "timestamp t' = timestamp t" "userTranscript t' = userTranscript t" by blast
    from assms(1) that have
      "\<forall>t \<in> set (turns w). userTranscript t \<noteq> [] \<and> timestamp t + 3000 \<le> clock w"
      by (simp add: seg_inv_def)
    with t' show "userTranscript t \<noteq> [] \<and> timestamp t + 3000 \<le> clock w" by metis
  qed
  have c5: "i \<noteq> [] \<and> (\<forall>t \<in> set ts. userTranscript t = [] \<longleftrightarrow> id' t = i)"
    if "currentTurnIdRef w = Some i" for i
  proof -
    from assms(1) that have a: "i \<noteq> []"
      and b: "\<forall>t \<in> set (turns w). userTranscript t = [] \<longleftrightarrow> id' t = i"
      by (simp_all add: seg_inv_def)
    have "userTranscript t = [] \<longleftrightarrow> id' t = i" if "t \<in> set ts" for t
    proof -
      from ex [OF that] obtain t' where t': "t' \<in> set (turns w)"
        "id' t' = id' t" "userTranscript t' = userTranscript t" by blast
      with b show ?thesis by metis
    qed
    with a show ?thesis by blast
  qed
  have c6: "\<forall>k \<in> set (pool w). feedback_task k"
    using assms(1) by (simp add: seg_inv_def)
  have c7: "\<forall>p \<in> set (timers w). silenceTimerRef w = Some (fst p)"
    using assms(1) by (simp add: seg_inv_def)
  show ?thesis
    unfolding seg_inv_def using c1 c2 c3 c4 c5 c6 c7
    by (simp split: option.split)
qed

lemma map_field_updateTurn:
  "(\<And>t. f (spread t u) = f t) \<Longrightarrow> map f (updateTurn i u ts) = map f ts"
  by (induction ts) (simp_all add: updateTurn_Cons)

lemma seg_inv_feedback_write:
  assumes "seg_inv w" "new_id u = None" "new_timestamp u = None" "new_userTranscript u = None"
  shows "seg_inv (w\<lparr>turns := updateTurn i u (turns w)\<rparr>)"
  using assms
  by (intro seg_inv_turns_same map_field_updateTurn) (simp_all add: spread_def)

lemma seg_inv_pool:
  assumes "seg_inv w" "set ps \<subseteq> set (pool w) \<union> Collect feedback_task"
  shows "seg_inv (w\<lparr>pool := ps\<rparr>)"
  using assms by (auto simp: seg_inv_def split: option.splits)

lemma seg_inv_requests: "seg_inv w \<Longrightarrow> seg_inv (w\<lparr>requests := r\<rparr>)"
  by (auto simp: seg_inv_def split: option.splits)

lemma seg_inv_timers:
  assumes "seg_inv w" "set tm \<subseteq> set (timers w)"
  shows "seg_inv (w\<lparr>timers := tm\<rparr>)"
  using assms by (auto simp: seg_inv_def split: option.splits)

lemma seg_inv_feedback_settled: "seg_inv w \<Longrightarrow> seg_inv (feedback_settled i fe w)"
  by (simp add: feedback_settled_def seg_inv_feedback_write no_updates_def
      split: call_result.split option.split)

lemma seg_inv_fetch: "seg_inv w \<Longrightarrow> seg_inv (settle (fetchGrammarFeedback fe text i w))"
proof -
  assume a: "seg_inv w"
  have "seg_inv (w\<lparr>requests := requests w @ [(text, i)], pool := pool w @ [FeedbackAwait i fe]\<rparr>)"
    using seg_inv_pool [OF seg_inv_requests [OF a, of "requests w @ [(text, i)]"],
        of "pool w @ [FeedbackAwait i fe]"]
    by (simp add: feedback_task_def subset_iff)
  with a show ?thesis
    by (cases fe) (simp_all add: fetchGrammarFeedback_def settle_def seg_inv_feedback_write)
qed

lemma seg_inv_Resume: "seg_inv w \<Longrightarrow> seg_inv (step (Resume i) w)"
proof (cases "i < length (pool w)")
  case False
  assume "seg_inv w"
  with False show ?thesis by simp
next
  case True
  assume a: "seg_inv w"
  let ?w = "w\<lparr>pool := take i (pool w) @ drop (Suc i) (pool w)\<rparr>"
  have "set (take i (pool w) @ drop (Suc i) (pool w)) \<subseteq> set (pool w)"
    using set_take_subset [of i "pool w"] set_drop_subset [of "Suc i" "pool w"] by auto
  then have b: "seg_inv ?w"
    using seg_inv_pool [OF a, of "take i (pool w) @ drop (Suc i) (pool w)"] by auto
  from a True have "feedback_task (pool w ! i)"
    by (simp add: seg_inv_def)
  then obtain tid fe where "pool w ! i = FeedbackAwait tid fe"
    by (cases "pool w ! i") (simp_all add: feedback_task_def)
  with True seg_inv_feedback_settled [OF b, of tid fe] show ?thesis
    by (simp add: settle_def)
qed

lemma due_timer: "due h w \<Longrightarrow> \<exists>d. (h, d) \<in> set (timers w) \<and> d \<le> clock w"
  by (auto simp: due_def split: option.splits dest: map_of_SomeD)

lemma seg_inv_clearTimeout: "seg_inv w \<Longrightarrow> seg_inv (clearTimeout h w)"
  unfolding clearTimeout_def by (rule seg_inv_timers) auto

lemma seg_inv_finalize:
  assumes a: "seg_inv w" and tr: "currentTurnIdRef w = Some i" and b: "buf \<noteq> []"
    and d: "\<forall>t \<in> set (turns w). timestamp t + 3000 \<le> clock w"
  shows "seg_inv (w\<lparr>turns := updateTurn i (no_updates\<lparr>new_userTranscript := Some buf\<rparr>) (turns w),
                    currentTurnIdRef := None, currentInputTransRef := x\<rparr>)"
proof -
  let ?u = "no_updates\<lparr>new_userTranscript := Some buf\<rparr>"
  let ?ts = "updateTurn i ?u (turns w)"
  have e: "?ts = map (\<lambda>t. if id' t = i then spread t ?u else t) (turns w)"
    by (rule updateTurn_distinct) (rule seg_inv_distinct_ids [OF a])
  have m1: "map id' ?ts = map id' (turns w)"
    by (rule map_field_updateTurn) (simp add: spread_def no_updates_def)
  have m2: "map timestamp ?ts = map timestamp (turns w)"
    by (rule map_field_updateTurn) (simp add: spread_def no_updates_def)
  have same: "\<exists>t' \<in> set (turns w). id' t' = id' t \<and> timestamp t' = timestamp t
      \<and> (userTranscript t = buf \<or> (id' t' \<noteq> i \<and> userTranscript t = userTranscript t'))"
    if "t \<in> set ?ts" for t
    using that unfolding e by (auto simp: spread_def no_updates_def)
  from a tr have op: "\<forall>t \<in> set (turns w). userTranscript t = [] \<longleftrightarrow> id' t = i"
    by (simp add: seg_inv_def)
  have c1: "\<forall>t \<in> set ?ts. id' t = toString (timestamp t) \<and> timestamp t \<le> clock w"
  proof
    fix t assume "t \<in> set ?ts"
    from same [OF this] obtain t' where "t' \<in> set (turns w)" "id' t' = id' t"
      "timestamp t' = timestamp t" by blast
    with a show "id' t = toString (timestamp t) \<and> timestamp t \<le> clock w"
      unfolding seg_inv_def by metis
  qed
  have c2: "distinct (map timestamp ?ts)"
    using a by (simp only: m2) (simp add: seg_inv_def)
  have c3: "\<forall>p \<in> set (timers w). \<forall>t \<in> set ?ts. timestamp t + 3000 \<le> snd p"
  proof (intro ballI)
    fix p t assume p: "p \<in> set (timers w)" and "t \<in> set ?ts"
    from same [OF this(2)] obtain t' where "t' \<in> set (turns w)" "timestamp t' = timestamp t"
      by blast
    with a p show "timestamp t + 3000 \<le> snd p"
      unfolding seg_inv_def by metis
  qed
  have c4: "\<forall>t \<in> set ?ts. userTranscript t \<noteq> [] \<and> timestamp t + 3000 \<le> clock w"
  proof
    fix t assume "t \<in> set ?ts"
    from same [OF this] obtain t' where t': "t' \<in> set (turns w)" "timestamp t' = timestamp t"
      "userTranscript t = buf \<or> (id' t' \<noteq> i \<and> userTranscript t = userTranscript t')" by blast
    from t' op b have "userTranscript t \<noteq> []" by metis
    moreover from t' d have "timestamp t + 3000 \<le> clock w" by metis
    ultimately show "userTranscript t \<noteq> [] \<and> timestamp t + 3000 \<le> clock w" ..
  qed
  have c6: "\<forall>k \<in> set (pool w). feedback_task k"
    using a by (simp add: seg_inv_def)
  have c7: "\<forall>p \<in> set (timers w). silenceTimerRef w = Some (fst p)"
    using a by (simp add: seg_inv_def)
  show ?thesis
    unfolding seg_inv_def using c1 c2 c3 c4 c6 c7 by simp
qed

lemma trim_Nil [simp]: "trim [] = []"
  by (simp add: trim_def)

lemma fetch_commute:
  "(settle (fetchGrammarFeedback fe text i w))\<lparr>currentTurnIdRef := a, currentInputTransRef := b\<rparr>
     = settle (fetchGrammarFeedback fe text i (w\<lparr>currentTurnIdRef := a, currentInputTransRef := b\<rparr>))"
  by (cases fe) (simp_all add: fetchGrammarFeedback_def settle_def)

lemma seg_inv_silenceTimeout:
  assumes a: "seg_inv w" and d: "\<forall>t \<in> set (turns w). timestamp t + 3000 \<le> clock w"
  shows "seg_inv (silenceTimeout fe w)"
proof (cases "currentTurnIdRef w")
  case None
  with a show ?thesis by (simp add: silenceTimeout_def)
next
  case (Some i)
  show ?thesis
  proof (cases "i \<noteq> [] \<and> trim (currentInputTransRef w) \<noteq> []")
    case False
    with a Some show ?thesis by (auto simp: silenceTimeout_def)
  next
    case True
    then have b: "currentInputTransRef w \<noteq> []" by auto
    let ?buf = "currentInputTransRef w"
    let ?ts = "updateTurn i (no_updates\<lparr>new_userTranscript := Some ?buf\<rparr>) (turns w)"
    have "seg_inv (w\<lparr>turns := ?ts, currentTurnIdRef := None, currentInputTransRef := []\<rparr>)"
      using a Some b d by (rule seg_inv_finalize)
    then have "seg_inv (settle (fetchGrammarFeedback fe ?buf i
        (w\<lparr>turns := ?ts, currentTurnIdRef := None, currentInputTransRef := []\<rparr>)))"
      by (rule seg_inv_fetch)
    then have "seg_inv ((settle (fetchGrammarFeedback fe ?buf i (w\<lparr>turns := ?ts\<rparr>)))
        \<lparr>currentTurnIdRef := None, currentInputTransRef := []\<rparr>)"
      by (simp add: fetch_commute)
    with Some True show ?thesis
      by (simp add: silenceTimeout_def Let_def)
  qed
qed

lemma seg_inv_TimerFire: "seg_inv w \<Longrightarrow> seg_inv (step (TimerFire h fe) w)"
proof (cases "due h w")
  case False
  assume "seg_inv w"
  with False show ?thesis by simp
next
  case True
  assume a: "seg_inv w"
  from due_timer [OF True] obtain d where d: "(h, d) \<in> set (timers w)" "d \<le> clock w" by blast
  have "timestamp t + 3000 \<le> clock w" if "t \<in> set (turns w)" for t
  proof -
    from a d(1) that have "timestamp t + 3000 \<le> snd (h, d)"
      unfolding seg_inv_def by blast
    with d(2) show ?thesis by simp
  qed
  then have "\<forall>t \<in> set (turns (clearTimeout h w)). timestamp t + 3000 \<le> clock (clearTimeout h w)"
    by (simp add: clearTimeout_def)
  with seg_inv_clearTimeout [OF a, of h] have "seg_inv (silenceTimeout fe (clearTimeout h w))"
    by (rule seg_inv_silenceTimeout)
  with True show ?thesis by simp
qed

lemma toString_eq_iff: "toString m = toString n \<longleftrightarrow> m = n"
  using toString_inj by blast

lemma seg_inv_Message: "seg_inv w \<Longrightarrow> seg_inv (onmessage m w)"
proof (cases m)
  case None
  assume "seg_inv w"
  with None show ?thesis by (simp add: onmessage_def)
next
  case (Some a)
  assume "seg_inv w"
  with Some show ?thesis
    by (auto simp: onmessage_def seg_inv_def Let_def setTimeout_def clearTimeout_def truthy_def
        createTurn_def toString_eq_iff split: option.splits)
qed

lemma seg_inv_step: "seg_inv w \<Longrightarrow> transcription_event e \<Longrightarrow> seg_inv (step e w)"
  by (cases e)
    (simp_all add: transcription_event_def seg_inv_Elapse seg_inv_Message seg_inv_TimerFire
      seg_inv_Resume del: step.simps(3,10))

lemma seg_inv_run: "seg_inv w \<Longrightarrow> list_all transcription_event es \<Longrightarrow> seg_inv (run es w)"
  by (induction es arbitrary: w) (simp_all add: seg_inv_step del: step.simps)

lemma seg_inv_open_turns:
  assumes "seg_inv w"
  shows "length (open_turns (turns w)) \<le> 1"
    and "\<not> truthy (currentTurnIdRef w) \<Longrightarrow> open_turns (turns w) = []"
    and "truthy (currentTurnIdRef w) \<Longrightarrow>
           open_turns (turns w) = filter (\<lambda>t. Some (id' t) = currentTurnIdRef w) (turns w)"
proof -
  have d: "distinct (map id' (turns w))" by (rule seg_inv_distinct_ids [OF assms])
  show n: "open_turns (turns w) = []" if "\<not> truthy (currentTurnIdRef w)"
    using assms that by (auto simp: seg_inv_def open_turns_def truthy_def filter_empty_conv split: option.splits)
  show t: "open_turns (turns w) = filter (\<lambda>t. Some (id' t) = currentTurnIdRef w) (turns w)"
    if "truthy (currentTurnIdRef w)"
    using assms that by (auto simp: seg_inv_def open_turns_def truthy_def split: option.splits intro!: filter_cong)
  show "length (open_turns (turns w)) \<le> 1"
  proof (cases "truthy (currentTurnIdRef w)")
    case False
    with n show ?thesis by simp
  next
    case True
    then obtain i where i: "currentTurnIdRef w = Some i" by (auto simp: truthy_def split: option.splits)
    have "length (filter (\<lambda>t. id' t = i) ts) \<le> 1" if "distinct (map id' ts)" for ts
      using that by (induction ts) (auto simp: filter_empty_conv image_iff)
    from this [OF d] t [OF True] i show ?thesis by simp
  qed
qed

lemma cleared_torn_down: "cleared (torn_down w)"
  by (simp add: cleared_def torn_down_def)

lemma torn_down_idem: "torn_down (torn_down w) = torn_down w"
  by (simp add: torn_down_def)

lemma complete_disconnect_cleared:
  "silenceTimerRef w = None \<Longrightarrow> activeSessionRef w = None \<Longrightarrow> streamRef w = None \<Longrightarrow>
   processorRef w = None \<Longrightarrow> sourceRef w = None \<Longrightarrow>
   complete 2 (disconnect te w) = (Done, torn_down w)"
  by (cases w)
    (simp add: disconnect_def disconnect_from3_def disconnect_from5_def disconnect_step6_def
      torn_down_def numeral_2_eq_2 Let_def split: option.split call_result.split)

lemma teardown_pending_pool [simp]: "teardown_pending (w\<lparr>pool := p\<rparr>) = teardown_pending w"
  by (rule ext) (simp add: teardown_pending_def split: task.split)

lemma from3_releases:
  "releases te \<Longrightarrow> disconnect_from3 te w
     = disconnect_from5 te (w\<lparr>streamRef := None, processorRef := None, sourceRef := None\<rparr>)"
  by (simp add: disconnect_from3_def releases_def Let_def)

lemma teardown_inv_from5:
  assumes "silenceTimerRef w = None" "unhandledRejections w = n" "activeSessionRef w = None"
    "streamRef w = None" "processorRef w = None" "sourceRef w = None"
    "list_all (teardown_pending w) (pool w)"
  shows "teardown_inv n (settle (disconnect_from5 te w))"
  using assms
  by (auto simp: teardown_inv_def disconnect_from5_def settle_def disconnect_step6_def
      cleared_def teardown_pending_def list_all_iff split: option.splits call_result.splits task.splits)

lemma teardown_inv_from3:
  assumes "silenceTimerRef w = None" "unhandledRejections w = n" "activeSessionRef w = None"
    "list_all (teardown_pending w) (pool w)" "releases te"
  shows "teardown_inv n (settle (disconnect_from3 te w))"
proof -
  let ?w = "w\<lparr>streamRef := None, processorRef := None, sourceRef := None\<rparr>"
  have "list_all (teardown_pending ?w) (pool ?w)"
    using assms(4) by (auto simp: list_all_iff teardown_pending_def split: task.splits)
  then have "teardown_inv n (settle (disconnect_from5 te ?w))"
    using assms(1,2,3) by (intro teardown_inv_from5) simp_all
  then show ?thesis by (simp add: from3_releases [OF assms(5)])
qed

lemma teardown_inv_disconnect:
  assumes "silenceTimerRef w = None" "unhandledRejections w = n"
    "list_all (teardown_pending w) (pool w)" "releases te"
  shows "teardown_inv n (settle (disconnect te w))"
proof (cases "activeSessionRef w")
  case None
  with assms teardown_inv_from3 [of w n te] show ?thesis
    by (simp add: disconnect_def)
next
  case (Some s)
  show ?thesis
  proof (cases "sessionClose te = Thrown")
    case True
    let ?w = "w\<lparr>activeSessionRef := None\<rparr>"
    have "list_all (teardown_pending ?w) (pool ?w)"
      using assms(3) by (auto simp: list_all_iff teardown_pending_def split: task.splits)
    with assms have "teardown_inv n (settle (disconnect_from3 te ?w))"
      by (intro teardown_inv_from3) simp_all
    with Some True assms(1) show ?thesis by (simp add: disconnect_def)
  next
    case False
    with Some assms show ?thesis
      by (cases "sessionClose te")
        (simp_all add: disconnect_def settle_def teardown_inv_def teardown_pending_def)
  qed
qed

lemma teardown_inv_Resume:
  assumes "teardown_inv n w"
  shows "teardown_inv n (step (Resume i) w)"
proof (cases "i < length (pool w)")
  case False
  with assms show ?thesis by simp
next
  case True
  let ?w = "w\<lparr>pool := take i (pool w) @ drop (Suc i) (pool w)\<rparr>"
  from assms have p: "list_all (teardown_pending w) (pool w)"
    and t: "silenceTimerRef w = None" and u: "unhandledRejections w = n"
    by (simp_all add: teardown_inv_def)
  have "set (take i (pool w) @ drop (Suc i) (pool w)) \<subseteq> set (pool w)"
    using set_take_subset [of i "pool w"] set_drop_subset [of "Suc i" "pool w"] by auto
  with p have q: "list_all (teardown_pending ?w) (pool ?w)"
    by (auto simp: list_all_iff)
  from p True have c: "teardown_pending w (pool w ! i)"
    by (simp add: list_all_length)
  show ?thesis
  proof (cases "pool w ! i")
    case (DisconnectAwaitSessionClose te)
    with c have r: "releases te" by (simp add: teardown_pending_def)
    let ?v = "?w\<lparr>activeSessionRef := None\<rparr>"
    have "list_all (teardown_pending ?v) (pool ?v)"
      using q by (auto simp: list_all_iff teardown_pending_def split: task.splits)
    with t u r have "teardown_inv n (settle (disconnect_from3 te ?v))"
      by (intro teardown_inv_from3) simp_all
    with True DisconnectAwaitSessionClose show ?thesis by simp
  next
    case (DisconnectAwaitContextClose te)
    with c have "activeSessionRef w = None \<and> streamRef w = None \<and> processorRef w = None
          \<and> sourceRef w = None"
      by (simp add: teardown_pending_def)
    with True DisconnectAwaitContextClose t u q show ?thesis
      by (auto simp: teardown_inv_def settle_def disconnect_step6_def cleared_def list_all_iff
          teardown_pending_def split: task.splits)
  qed (use c in \<open>simp_all add: teardown_pending_def\<close>)
qed

lemma teardown_inv_step:
  "teardown_inv n w \<Longrightarrow> teardown_event e \<Longrightarrow> teardown_inv n (step e w)"
proof (cases e)
  case (CallDisconnect te)
  assume "teardown_inv n w" "teardown_event e"
  with CallDisconnect show ?thesis
    using teardown_inv_disconnect [of w n te]
    by (simp add: teardown_inv_def teardown_event_def)
next
  case (Resume i)
  assume "teardown_inv n w"
  with Resume show ?thesis
    using teardown_inv_Resume [of n w i] by (simp del: step.simps)
qed (simp_all add: teardown_event_def)

lemma teardown_inv_run:
  "teardown_inv n w \<Longrightarrow> list_all teardown_event es \<Longrightarrow> teardown_inv n (run es w)"
  by (induction es arbitrary: w) (simp_all add: teardown_inv_step del: step.simps)

lemma disconnect_timer_cleared:
  "silenceTimerRef w = Some h \<Longrightarrow>
     disconnect te w = disconnect te ((clearTimeout h w)\<lparr>silenceTimerRef := None\<rparr>)"
  by (simp add: disconnect_def Let_def)

lemma teardown_inv_first:
  assumes "pool w = []" "releases te"
  shows "teardown_inv (unhandledRejections w) (step (CallDisconnect te) w)"
proof (cases "silenceTimerRef w")
  case None
  with assms show ?thesis
    using teardown_inv_disconnect [of w "unhandledRejections w" te] by simp
next
  case (Some h)
  let ?w = "(clearTimeout h w)\<lparr>silenceTimerRef := None\<rparr>"
  have "teardown_inv (unhandledRejections w) (settle (disconnect te ?w))"
    using assms by (intro teardown_inv_disconnect) (simp_all add: clearTimeout_def)
  then show ?thesis by (simp add: disconnect_timer_cleared [OF Some])
qed

lemma length_turns_not_message:
  "(\<forall>m. e \<noteq> Message m) \<Longrightarrow> length (turns (step e w)) = length (turns w)"
proof (cases e)
  case (TimerFire h fe)
  have "length (turns (silenceTimeout fe v)) = length (turns v)" for v
    by (simp add: silenceTimeout_def Let_def turns_fetch length_updateTurn split: option.split)
  with TimerFire show ?thesis by simp
next
  case (Resume i)
  have "length (turns (snd (resume t v))) = length (turns v)" for t v
    by (cases t)
      (simp_all add: turns_disconnect_from3 feedback_settled_def length_updateTurn
        split: call_result.split option.split)
  with Resume show ?thesis by simp
qed (simp_all add: turns_disconnect)

lemma onmessage_creates:
  "length (turns (onmessage m w)) \<noteq> length (turns w) \<Longrightarrow>
     \<not> truthy (currentTurnIdRef w)
     \<and> turns (onmessage m w) = createTurn (toString (clock w)) (clock w) (turns w)
     \<and> currentTurnIdRef (onmessage m w) = Some (toString (clock w))"
  by (cases m)
    (auto simp: onmessage_def Let_def setTimeout_def clearTimeout_def
      split: option.splits if_splits)

text \<open>Steps 3 and 4 of \<open>disconnect\<close> sit in no \<^verbatim>\<open>try\<close>: when stopping the tracks throws,
  the exception escapes and the later steps do not run.\<close>

lemma unguarded_step_escapes:
  "silenceTimerRef w = None \<Longrightarrow> activeSessionRef w = None \<Longrightarrow> streamRef w \<noteq> None \<Longrightarrow>
   trackStopThrows te \<Longrightarrow> disconnect te w = (Raise, w)"
  by (simp add: disconnect_def disconnect_from3_def)

lemma pool_sent_from5 [simp]:
  "pool (snd (disconnect_from5 te w)) = pool w" "sent (snd (disconnect_from5 te w)) = sent w"
  by (simp_all add: disconnect_from5_def disconnect_step6_def split: option.split call_result.split)

lemma pool_sent_from3 [simp]:
  "pool (snd (disconnect_from3 te w)) = pool w" "sent (snd (disconnect_from3 te w)) = sent w"
  by (simp_all add: disconnect_from3_def Let_def)

lemma pool_sent_disconnect [simp]:
  "pool (snd (disconnect te w)) = pool w" "sent (snd (disconnect te w)) = sent w"
  by (simp_all add: disconnect_def Let_def clearTimeout_def split: option.split call_result.split)

lemma session_disconnect:
  "activeSessionRef w = None \<Longrightarrow> activeSessionRef (snd (disconnect te w)) = None"
  by (simp add: disconnect_def Let_def clearTimeout_def split: option.split)

lemma settle_idle:
  assumes "session_idle (snd r)" "\<And>t. fst r = Await t \<Longrightarrow> \<not> connect_task t"
  shows "session_idle (settle r) \<and> sent (settle r) = sent (snd r)"
  using assms by (cases r) (auto simp: settle_def session_idle_def split: outcome.splits)

lemma from3_not_connect: "fst (disconnect_from3 te w) = Await t \<Longrightarrow> \<not> connect_task t"
  using from3_outcome [of te w] by (auto simp: connect_task_def)

lemma disconnect_not_connect: "fst (disconnect te w) = Await t \<Longrightarrow> \<not> connect_task t"
  using disconnect_outcome [of te w] by (auto simp: connect_task_def)

lemma idle_disconnect:
  assumes "session_idle w"
  shows "session_idle (settle (disconnect te w)) \<and> sent (settle (disconnect te w)) = sent w"
proof -
  have "session_idle (snd (disconnect te w))"
    using assms by (simp add: session_idle_def session_disconnect)
  from settle_idle [OF this disconnect_not_connect] show ?thesis by simp
qed

lemma idle_from3:
  assumes "session_idle w"
  shows "session_idle (settle (disconnect_from3 te w)) \<and> sent (settle (disconnect_from3 te w)) = sent w"
proof -
  have "session_idle (snd (disconnect_from3 te w))"
    using assms by (simp add: session_idle_def)
  from settle_idle [OF this from3_not_connect] show ?thesis by simp
qed

lemma idle_fetch:
  assumes "session_idle w"
  shows "session_idle (settle (fetchGrammarFeedback fe text i w))
     \<and> sent (settle (fetchGrammarFeedback fe text i w)) = sent w"
  using assms
  by (cases fe)
    (simp_all add: fetchGrammarFeedback_def settle_def session_idle_def connect_task_def)

lemma idle_silenceTimeout:
  assumes "session_idle w"
  shows "session_idle (silenceTimeout fe w) \<and> sent (silenceTimeout fe w) = sent w"
proof -
  have "session_idle ((settle (fetchGrammarFeedback fe tr i (w\<lparr>turns := ts\<rparr>)))
           \<lparr>currentTurnIdRef := None, currentInputTransRef := []\<rparr>)
     \<and> sent ((settle (fetchGrammarFeedback fe tr i (w\<lparr>turns := ts\<rparr>)))
           \<lparr>currentTurnIdRef := None, currentInputTransRef := []\<rparr>) = sent w" for tr i ts
    using idle_fetch [of "w\<lparr>turns := ts\<rparr>" fe tr i] assms
    by (simp add: session_idle_def)
  then show ?thesis
    using assms by (simp add: silenceTimeout_def Let_def split: option.split)
qed

lemma idle_onmessage:
  "session_idle w \<Longrightarrow> session_idle (onmessage m w) \<and> sent (onmessage m w) = sent w"
  by (cases m)
    (simp_all add: onmessage_def Let_def setTimeout_def clearTimeout_def session_idle_def
      split: option.split)

lemma idle_Resume:
  assumes "session_idle w"
  shows "session_idle (step (Resume i) w) \<and> sent (step (Resume i) w) = sent w"
proof (cases "i < length (pool w)")
  case False
  with assms show ?thesis by simp
next
  case True
  let ?w = "w\<lparr>pool := take i (pool w) @ drop (Suc i) (pool w)\<rparr>"
  have "set (take i (pool w) @ drop (Suc i) (pool w)) \<subseteq> set (pool w)"
    using set_take_subset [of i "pool w"] set_drop_subset [of "Suc i" "pool w"] by auto
  with assms have q: "session_idle ?w"
    by (auto simp: session_idle_def list_all_iff)
  from assms True have c: "\<not> connect_task (pool w ! i)"
    by (simp add: session_idle_def list_all_length)
  show ?thesis
  proof (cases "pool w ! i")
    case (DisconnectAwaitSessionClose te)
    have "session_idle (?w\<lparr>activeSessionRef := None\<rparr>)"
      using q by (simp add: session_idle_def)
    from idle_from3 [OF this, of te] True DisconnectAwaitSessionClose show ?thesis by simp
  next
    case (DisconnectAwaitContextClose te)
    with True q show ?thesis
      by (simp add: settle_def disconnect_step6_def session_idle_def)
  next
    case (DispatchThen s b)
    with True q show ?thesis
      by (simp add: settle_def dispatch_def session_idle_def)
  next
    case (FeedbackAwait tid fe)
    with True q show ?thesis
      by (simp add: settle_def feedback_settled_def session_idle_def
          split: call_result.split option.split)
  qed (use c in \<open>simp_all add: connect_task_def\<close>)
qed

lemma idle_step:
  assumes "session_idle w" "no_connect_call e"
  shows "session_idle (step e w) \<and> sent (step e w) = sent w"
proof (cases e)
  case (Elapse dt)
  with assms show ?thesis by (simp add: session_idle_def)
next
  case (Message m)
  with assms idle_onmessage [of w m] show ?thesis by simp
next
  case (TimerFire h fe)
  have "session_idle (clearTimeout h w)"
    using assms by (simp add: session_idle_def clearTimeout_def)
  from idle_silenceTimeout [OF this, of fe] TimerFire assms show ?thesis
    by (simp add: clearTimeout_def)
next
  case (AudioProcess c s b)
  with assms show ?thesis
    by (simp add: onaudioprocess_def settle_def session_idle_def connect_task_def)
next
  case (CallConnect ce)
  with assms show ?thesis by (simp add: no_connect_call_def)
next
  case (CallDisconnect te)
  with idle_disconnect [OF assms(1), of te] show ?thesis by simp
next
  case (OnOpen p)
  with assms show ?thesis by (simp add: onopen_def Let_def session_idle_def split: option.split)
next
  case (OnClose te)
  with assms show ?thesis by (simp add: onclose_def session_idle_def)
next
  case (OnError te)
  with idle_disconnect [OF assms(1), of te] show ?thesis
    by (simp add: onerror_def disconnect_then_error_def session_idle_def)
next
  case (Resume i)
  with idle_Resume [OF assms(1), of i] show ?thesis by (simp del: step.simps)
qed

lemma idle_run:
  "session_idle w \<Longrightarrow> list_all no_connect_call es \<Longrightarrow>
     session_idle (run es w) \<and> sent (run es w) = sent w"
proof (induction es arbitrary: w)
  case Nil
  then show ?case by simp
next
  case (Cons e es)
  from Cons.prems have a: "session_idle (step e w) \<and> sent (step e w) = sent w"
    using idle_step [of w e] by simp
  with Cons.IH [of "step e w"] Cons.prems show ?case by (simp del: step.simps)
qed

lemma pool_complete_from3: "pool (snd (complete n (disconnect_from3 te w))) = pool w"
proof -
  obtain r w' where e: "disconnect_from3 te w = (r, w')" by (cases "disconnect_from3 te w")
  have a: "pool w' = pool w" using pool_sent_from3(1) [of te w] e by simp
  have "r \<in> {Done, Raise, Await (DisconnectAwaitContextClose te)}"
    using from3_outcome [of te w] e by simp
  with e a show ?thesis by (cases n) (auto simp: disconnect_step6_def)
qed

lemma pool_complete_disconnect: "pool (snd (complete 2 (disconnect te w))) = pool w"
  by (simp add: disconnect_def Let_def numeral_2_eq_2 pool_complete_from3 clearTimeout_def
      split: option.split call_result.split)

section \<open>The claims\<close>

text \<open>
  C1. Start from the initial state and let any sequence of transcription events
  happen: fragments (empty or not, of white space or not) are delivered to
  \<open>onmessage\<close>, time passes, timers fire when they are due, analysis requests settle.
  At every point at most one turn of the sequence is open (created and not yet
  finalized); no turn is open when no open-turn id is tracked, and otherwise the open
  turns are the turns with the tracked id. In any state, \<open>onmessage\<close> changes the length
  of the turn sequence only when no open-turn id is tracked, and then it appends one
  turn and tracks its id; no other event changes the length of the sequence. So a
  second turn can be created only after the timer callback has finalized the first
  and cleared the open-turn id. (A teardown is no transcription event: it clears the
  open-turn id and leaves the turn it abandons in the sequence, without transcript.)
\<close>

theorem at_most_one_open_turn:
  assumes "list_all transcription_event es"
  shows "length (open_turns (turns (run es (init key t0)))) \<le> 1
     \<and> (\<not> truthy (currentTurnIdRef (run es (init key t0))) \<longrightarrow>
          open_turns (turns (run es (init key t0))) = [])
     \<and> (truthy (currentTurnIdRef (run es (init key t0))) \<longrightarrow>
          open_turns (turns (run es (init key t0)))
            = filter (\<lambda>t. Some (id' t) = currentTurnIdRef (run es (init key t0)))
                (turns (run es (init key t0))))
     \<and> (length (turns (step (Message m) w)) \<noteq> length (turns w) \<longrightarrow>
          \<not> truthy (currentTurnIdRef w)
          \<and> turns (step (Message m) w) = createTurn (toString (clock w)) (clock w) (turns w)
          \<and> currentTurnIdRef (step (Message m) w) = Some (toString (clock w)))
     \<and> ((\<forall>m. e \<noteq> Message m) \<longrightarrow> length (turns (step e w)) = length (turns w))"
proof -
  have "seg_inv (run es (init key t0))"
    using seg_inv_init assms by (rule seg_inv_run)
  from seg_inv_open_turns [OF this] onmessage_creates [of m w] length_turns_not_message [of e w]
  show ?thesis by simp
qed

theorem at_most_one_open_turn_witness:
  "list_all transcription_event
     [Message (Some (lit ''Ich'')), Elapse 3000, TimerFire 1 (Fulfilled (Some (lit ''Feedback:''))),
      Message (Some (lit ''Noch'')), Resume 0]
   \<and> length (open_turns (turns (run
        [Message (Some (lit ''Ich'')), Elapse 3000, TimerFire 1 (Fulfilled (Some (lit ''Feedback:''))),
         Message (Some (lit ''Noch'')), Resume 0] (init (Some (lit ''key'')) 0)))) \<le> 1
   \<and> open_turns (turns (run
        [Message (Some (lit ''Ich'')), Elapse 3000, TimerFire 1 (Fulfilled (Some (lit ''Feedback:''))),
         Message (Some (lit ''Noch'')), Resume 0] (init (Some (lit ''key'')) 0)))
      = [\<lparr>id' = lit ''3000'', userTranscript = [], modelResponse = [], isComplete = False,
          timestamp = 3000\<rparr>]
   \<and> length (turns (step (Elapse 1) (init (Some (lit ''key'')) 0)))
      = length (turns (init (Some (lit ''key'')) 0))"
proof -
  let ?es = "[Message (Some (lit ''Ich'')), Elapse 3000,
      TimerFire 1 (Fulfilled (Some (lit ''Feedback:''))), Message (Some (lit ''Noch'')), Resume 0]"
  have h: "list_all transcription_event ?es"
    by (simp add: transcription_event_def)
  have o: "open_turns (turns (run ?es (init (Some (lit ''key'')) 0)))
      = [\<lparr>id' = lit ''3000'', userTranscript = [], modelResponse = [], isComplete = False,
          timestamp = 3000\<rparr>]"
    by code_simp
  have n: "\<forall>m. Elapse 1 \<noteq> Message m"
    by simp
  from h o n
    at_most_one_open_turn [OF h, of "Some (lit ''key'')" 0 None "init (Some (lit ''key'')) 0" "Elapse 1"]
  show ?thesis by blast
qed

text \<open>
  C2, as the code has it. Let non-empty fragments \<open>a\<close>, \<open>b\<close>, \<open>c\<close> arrive at 0 ms, 1000 ms
  and 1500 ms, their concatenation holding a character that is not white space. Each
  fragment leaves exactly one pending timer, due 3000 ms after it (the earlier one is
  cancelled). While less than 3000 ms have passed since the last fragment seen, no
  timer can fire and the turn has no transcript; this covers every moment before
  4500 ms. At 4500 ms the timer is due, and its callback writes the concatenation
  \<open>a @ b @ c\<close> into the turn and clears the open-turn id and the buffer. In any state,
  a non-empty fragment \<open>x\<close> cancels the timer that the timer ref holds and arms a new
  one, due 3000 ms later, which the timer ref then holds.
\<close>

theorem debounce_three_fragments:
  assumes "a \<noteq> []" and "b \<noteq> []" and "c \<noteq> []" and "trim (a @ b @ c) \<noteq> []"
  shows
    "timers (run [Message (Some a)] (init key t0)) = [(1, t0 + 3000)]
     \<and> timers (run [Message (Some a), Elapse 1000, Message (Some b)] (init key t0)) = [(2, t0 + 4000)]
     \<and> timers (run (three_fragments a b c) (init key t0)) = [(3, t0 + 4500)]
     \<and> (dt < 3000 \<longrightarrow>
          step (TimerFire h fe) (run ([Message (Some a)] @ [Elapse dt]) (init key t0))
            = run ([Message (Some a)] @ [Elapse dt]) (init key t0)
          \<and> step (TimerFire h fe)
                (run ([Message (Some a), Elapse 1000, Message (Some b)] @ [Elapse dt]) (init key t0))
            = run ([Message (Some a), Elapse 1000, Message (Some b)] @ [Elapse dt]) (init key t0)
          \<and> step (TimerFire h fe) (run (three_fragments a b c @ [Elapse dt]) (init key t0))
            = run (three_fragments a b c @ [Elapse dt]) (init key t0)
          \<and> map userTranscript (turns (run (three_fragments a b c @ [Elapse dt]) (init key t0))) = [[]])
     \<and> due 3 (run (three_fragments a b c @ [Elapse 3000]) (init key t0))
     \<and> map userTranscript
          (turns (run (three_fragments a b c @ [Elapse 3000, TimerFire 3 fe]) (init key t0)))
        = [a @ b @ c]
     \<and> currentTurnIdRef (run (three_fragments a b c @ [Elapse 3000, TimerFire 3 fe]) (init key t0))
        = None
     \<and> currentInputTransRef (run (three_fragments a b c @ [Elapse 3000, TimerFire 3 fe]) (init key t0))
        = []
     \<and> (x \<noteq> [] \<and> silenceTimerRef w = Some g \<longrightarrow>
          timers (step (Message (Some x)) w)
            = filter (\<lambda>p. fst p \<noteq> g) (timers w) @ [(Suc (timerCount w), clock w + 3000)]
          \<and> silenceTimerRef (step (Message (Some x)) w) = Some (Suc (timerCount w)))"
proof -
  note w1 = first_fragment_world [OF assms(1), of key t0]
  note w2 = two_fragments_world [OF assms(1,2), of key t0]
  note w3 = three_fragments_world [OF assms(1,2,3), of key t0]
  have t1: "timers (run [Message (Some a)] (init key t0)) = [(1, t0 + 3000)]"
    by (simp only: w1) simp
  have t2: "timers (run [Message (Some a), Elapse 1000, Message (Some b)] (init key t0)) = [(2, t0 + 4000)]"
    by (simp only: w2) simp
  have t3: "timers (run (three_fragments a b c) (init key t0)) = [(3, t0 + 4500)]"
    by (simp only: w3) simp
  have n1: "step (TimerFire h fe) (run ([Message (Some a)] @ [Elapse dt]) (init key t0))
            = run ([Message (Some a)] @ [Elapse dt]) (init key t0)" if "dt < 3000"
    unfolding run_append w1 using that by (simp add: due_def init_def)
  have n2: "step (TimerFire h fe)
                (run ([Message (Some a), Elapse 1000, Message (Some b)] @ [Elapse dt]) (init key t0))
            = run ([Message (Some a), Elapse 1000, Message (Some b)] @ [Elapse dt]) (init key t0)"
    if "dt < 3000"
    unfolding run_append w2 using that by (simp add: due_def init_def)
  have n3: "step (TimerFire h fe) (run (three_fragments a b c @ [Elapse dt]) (init key t0))
            = run (three_fragments a b c @ [Elapse dt]) (init key t0)" if "dt < 3000"
    unfolding run_append w3 using that by (simp add: due_def init_def)
  have n4: "map userTranscript (turns (run (three_fragments a b c @ [Elapse dt]) (init key t0))) = [[]]"
    unfolding run_append w3 by simp
  have d: "due 3 (run (three_fragments a b c @ [Elapse 3000]) (init key t0))"
    unfolding run_append w3 by (simp add: due_def init_def)
  have fin: "map userTranscript
          (turns (run (three_fragments a b c @ [Elapse 3000, TimerFire 3 fe]) (init key t0)))
        = [a @ b @ c]
     \<and> currentTurnIdRef (run (three_fragments a b c @ [Elapse 3000, TimerFire 3 fe]) (init key t0))
        = None
     \<and> currentInputTransRef (run (three_fragments a b c @ [Elapse 3000, TimerFire 3 fe]) (init key t0))
        = []"
    unfolding run_append w3 using assms(4)
    by (simp add: due_def init_def clearTimeout_def silenceTimeout_def Let_def turns_fetch
        updateTurn_def spread_def no_updates_def errorFeedback_def)
  have r: "timers (step (Message (Some x)) w)
            = filter (\<lambda>p. fst p \<noteq> g) (timers w) @ [(Suc (timerCount w), clock w + 3000)]
          \<and> silenceTimerRef (step (Message (Some x)) w) = Some (Suc (timerCount w))"
    if "x \<noteq> []" "silenceTimerRef w = Some g"
    using that by (simp add: onmessage_def Let_def setTimeout_def clearTimeout_def)
  from t1 t2 t3 n1 n2 n3 n4 d fin r show ?thesis by blast
qed

theorem debounce_three_fragments_witness:
  "trim (lit ''Ich'' @ lit '' habe'' @ lit '' einen Fehler gemacht'') \<noteq> []
   \<and> map userTranscript
     (turns (run (three_fragments (lit ''Ich'') (lit '' habe'') (lit '' einen Fehler gemacht'')
                    @ [Elapse 3000, TimerFire 3 (Fulfilled None)]) (init (Some (lit ''key'')) 0)))
     = [lit ''Ich'' @ lit '' habe'' @ lit '' einen Fehler gemacht'']
   \<and> lit ''Ich'' @ lit '' habe'' @ lit '' einen Fehler gemacht''
     = lit ''Ich habe einen Fehler gemacht''
   \<and> step (TimerFire 3 (Fulfilled None))
        (run (three_fragments (lit ''Ich'') (lit '' habe'') (lit '' einen Fehler gemacht'')
                @ [Elapse 2999]) (init (Some (lit ''key'')) 0))
     = run (three_fragments (lit ''Ich'') (lit '' habe'') (lit '' einen Fehler gemacht'')
                @ [Elapse 2999]) (init (Some (lit ''key'')) 0)
   \<and> timers (step (Message (Some (lit '' habe''))) (step (Message (Some (lit ''Ich''))) connected))
     = filter (\<lambda>p. fst p \<noteq> 1) (timers (step (Message (Some (lit ''Ich''))) connected))
       @ [(Suc (timerCount (step (Message (Some (lit ''Ich''))) connected)),
           clock (step (Message (Some (lit ''Ich''))) connected) + 3000)]"
proof -
  have h: "lit ''Ich'' \<noteq> []" "lit '' habe'' \<noteq> []" "lit '' einen Fehler gemacht'' \<noteq> []"
    "trim (lit ''Ich'' @ lit '' habe'' @ lit '' einen Fehler gemacht'') \<noteq> []"
    by code_simp+
  have c: "lit ''Ich'' @ lit '' habe'' @ lit '' einen Fehler gemacht''
     = lit ''Ich habe einen Fehler gemacht''"
    by (simp add: lit_def)
  have l: "(2999::nat) < 3000"
    by simp
  have g: "silenceTimerRef (step (Message (Some (lit ''Ich''))) connected) = Some 1"
    by code_simp
  from h(4) c l g h(2)
    debounce_three_fragments
      [OF h, where dt = 2999 and h = 3 and fe = "Fulfilled None" and key = "Some (lit ''key'')"
         and ?t0.0 = 0 and x = "lit '' habe''" and g = 1
         and w = "step (Message (Some (lit ''Ich''))) connected"]
  show ?thesis by blast
qed

text \<open>
  C2 as stated fails for fragments of white space: three fragments of one space each
  arrive at 0 ms, 1000 ms and 1500 ms; at 4500 ms the timer is due and fires, and the
  turn's transcript is not the concatenation of the three fragments (it stays empty).
\<close>

theorem blank_fragments_counterexample:
  "due 3 (run (three_fragments (lit '' '') (lit '' '') (lit '' '') @ [Elapse 3000])
            (init (Some (lit ''key'')) 0))
   \<and> map userTranscript
        (turns (run (three_fragments (lit '' '') (lit '' '') (lit '' '')
                       @ [Elapse 3000, TimerFire 3 (Fulfilled None)]) (init (Some (lit ''key'')) 0)))
     \<noteq> [lit '' '' @ lit '' '' @ lit '' '']"
  by code_simp

text \<open>
  C3, as the code has it. When the silence timer fires while the accumulation buffer
  is empty or holds white space only, its callback changes nothing: no transcript is
  written, no analysis request is issued, and the open-turn id and the buffer stay as
  they are, so the turn stays open and later fragments are appended to the same
  buffer. A fragment of white space followed by the silence timeout therefore leaves
  one turn with an empty transcript, no analysis request, and the turn still tracked.
\<close>

theorem silence_timeout_blank_buffer:
  "(trim (currentInputTransRef w) = [] \<longrightarrow>
      silenceTimeout fe w = w
      \<and> step (TimerFire h fe) w = (if due h w then clearTimeout h w else w))
   \<and> (txt \<noteq> [] \<and> trim txt = [] \<and> 3000 \<le> dt \<longrightarrow>
        due 1 (run [Message (Some txt), Elapse dt] (init key t0))
        \<and> run [Message (Some txt), Elapse dt, TimerFire 1 fe] (init key t0)
            = (init key t0)\<lparr>turns := [\<lparr>id' = toString t0, userTranscript = [], modelResponse = [],
                                          isComplete = False, timestamp = t0\<rparr>],
                 currentTurnIdRef := Some (toString t0), currentInputTransRef := txt,
                 silenceTimerRef := Some 1, clock := t0 + dt, timers := [], timerCount := 1\<rparr>)"
  by (simp add: silenceTimeout_def clearTimeout_def due_def onmessage_def init_def truthy_def
      createTurn_def setTimeout_def Let_def split: option.split)

theorem silence_timeout_blank_buffer_witness:
  "trim (currentInputTransRef (run [Message (Some (lit '' '')), Elapse 3000] (init None 0))) = []
   \<and> due 1 (run [Message (Some (lit '' '')), Elapse 3000] (init None 0))
   \<and> silenceTimeout Rejected (run [Message (Some (lit '' '')), Elapse 3000] (init None 0))
       = run [Message (Some (lit '' '')), Elapse 3000] (init None 0)
   \<and> run [Message (Some (lit '' '')), Elapse 3000, TimerFire 1 Rejected] (init None 0)
       = (init None 0)\<lparr>turns := [\<lparr>id' = toString 0, userTranscript = [], modelResponse = [],
                                     isComplete = False, timestamp = 0\<rparr>],
            currentTurnIdRef := Some (toString 0), currentInputTransRef := lit '' '',
            silenceTimerRef := Some 1, clock := 0 + 3000, timers := [], timerCount := 1\<rparr>"
proof -
  let ?W = "run [Message (Some (lit '' '')), Elapse 3000] (init None 0)"
  have b: "trim (currentInputTransRef ?W) = []"
    by code_simp
  have d: "due 1 ?W"
    by code_simp
  have n: "lit '' '' \<noteq> [] \<and> trim (lit '' '') = [] \<and> (3000::nat) \<le> 3000"
    by code_simp
  from b d n silence_timeout_blank_buffer [of ?W Rejected 1 "lit '' ''" 3000 None 0]
  show ?thesis by blast
qed

text \<open>
  C3 as stated fails: after a fragment consisting of one space and the silence
  timeout, the open-turn id and the buffer are not cleared.
\<close>

theorem blank_fragment_counterexample:
  "due 1 (run [Message (Some (lit '' '')), Elapse 3000] (init (Some (lit ''key'')) 0))
   \<and> currentTurnIdRef (run [Message (Some (lit '' '')), Elapse 3000, TimerFire 1 (Fulfilled None)]
         (init (Some (lit ''key'')) 0)) \<noteq> None
   \<and> currentInputTransRef (run [Message (Some (lit '' '')), Elapse 3000, TimerFire 1 (Fulfilled None)]
         (init (Some (lit ''key'')) 0)) \<noteq> []"
  by (simp add: silenceTimeout_def clearTimeout_def due_def onmessage_def init_def truthy_def
      createTurn_def setTimeout_def Let_def trim_lit_blank) (simp add: lit_def)




text \<open>
  C5, as the code has it, for teardown with no \<open>connect\<close> in flight. Let the calls of
  steps 3 and 4 not throw (\<open>releases\<close>); closing the session and closing the audio
  context may succeed, reject or throw. Then \<open>disconnect\<close> run from any state ends by
  returning, in the state \<open>torn_down w\<close>, in which the connection state is
  \<open>DISCONNECTED\<close> and the timer ref, the session, stream, processor, source and context
  refs, the analyser and the open-turn fields are cleared; a second call after it
  returns as well and leaves that state as it is. The same holds when calls overlap:
  from a state with nothing pending, after a first call and then any sequence of
  further calls and continuations, in any order, no exception has escaped, and as
  soon as nothing is pending any more everything is cleared.
\<close>

theorem disconnect_twice:
  "(releases te1 \<longrightarrow>
      complete 2 (disconnect te1 w) = (Done, torn_down w)
      \<and> complete 2 (disconnect te2 (torn_down w)) = (Done, torn_down w)
      \<and> cleared (torn_down w))
   \<and> (releases te1 \<and> pool w = [] \<and> list_all teardown_event es
        \<and> pool (run es (step (CallDisconnect te1) w)) = [] \<longrightarrow>
        cleared (run es (step (CallDisconnect te1) w))
        \<and> unhandledRejections (run es (step (CallDisconnect te1) w)) = unhandledRejections w)"
proof -
  have a: "complete 2 (disconnect te2 (torn_down w)) = (Done, torn_down w)"
    using complete_disconnect_cleared [of "torn_down w" te2]
    by (simp add: torn_down_idem) (simp add: torn_down_def)
  have b: "cleared (run es (step (CallDisconnect te1) w))
        \<and> unhandledRejections (run es (step (CallDisconnect te1) w)) = unhandledRejections w"
    if "releases te1" "pool w = []" "list_all teardown_event es"
      "pool (run es (step (CallDisconnect te1) w)) = []"
  proof -
    have "teardown_inv (unhandledRejections w) (run es (step (CallDisconnect te1) w))"
      using teardown_inv_first [OF that(2,1)] that(3) by (rule teardown_inv_run)
    with that(4) show ?thesis by (simp add: teardown_inv_def)
  qed
  from a b complete_disconnect_releases [of te1 w] cleared_torn_down [of w]
  show ?thesis by blast
qed

theorem disconnect_twice_witness:
  "releases closing_fails
   \<and> complete 2 (disconnect closing_fails connected) = (Done, torn_down connected)
   \<and> complete 2 (disconnect calm (torn_down connected)) = (Done, torn_down connected)
   \<and> pool (run [CallDisconnect calm, Resume 0, Resume 0]
             (step (CallDisconnect closing_fails) connected)) = []
   \<and> cleared (run [CallDisconnect calm, Resume 0, Resume 0]
        (step (CallDisconnect closing_fails) connected))
   \<and> unhandledRejections (run [CallDisconnect calm, Resume 0, Resume 0]
        (step (CallDisconnect closing_fails) connected)) = unhandledRejections connected"
proof -
  have r: "releases closing_fails"
    by (simp add: releases_def closing_fails_def calm_def)
  have p: "pool connected = []"
    by code_simp
  have l: "list_all teardown_event [CallDisconnect calm, Resume 0, Resume 0]"
    by (simp add: teardown_event_def releases_def calm_def)
  have q: "pool (run [CallDisconnect calm, Resume 0, Resume 0]
             (step (CallDisconnect closing_fails) connected)) = []"
    by code_simp
  from r p l q
    disconnect_twice [of closing_fails connected calm "[CallDisconnect calm, Resume 0, Resume 0]"]
  show ?thesis by blast
qed

text \<open>
  C5 as stated fails while a \<open>connect\<close> is pending. First run: \<open>connect\<close> waits for the
  microphone, \<open>disconnect\<close> is called twice and both calls wait for the audio context to
  close, the microphone is granted and \<open>connect\<close> continues, then both teardowns finish.
  Both calls have returned and the stream and source refs are not cleared. Second run:
  \<open>connect\<close> waits for the audio context to resume, \<open>disconnect\<close> is called twice and
  returns at once, then \<open>connect\<close> continues and the session opens: the connection state
  is \<open>CONNECTED\<close>, and the session and stream refs are set.
\<close>

theorem disconnect_during_connect_counterexample:
  "pool (run [CallConnect granted, Resume 0, CallDisconnect calm, CallDisconnect calm,
              Resume 0, Resume 0, Resume 0] (init (Some (lit ''key'')) 0)) = [SessionThen 5]
   \<and> streamRef (run [CallConnect granted, Resume 0, CallDisconnect calm, CallDisconnect calm,
              Resume 0, Resume 0, Resume 0] (init (Some (lit ''key'')) 0)) = Some 2
   \<and> sourceRef (run [CallConnect granted, Resume 0, CallDisconnect calm, CallDisconnect calm,
              Resume 0, Resume 0, Resume 0] (init (Some (lit ''key'')) 0)) = Some 3
   \<and> pool (run [CallConnect granted, CallDisconnect calm, CallDisconnect calm]
              (init (Some (lit ''key'')) 0)) = [ConnectAwaitResume 1 granted]
   \<and> status (run [CallConnect granted, CallDisconnect calm, CallDisconnect calm,
              Resume 0, Resume 0, Resume 0, OnOpen (Some 6)] (init (Some (lit ''key'')) 0))
       = CONNECTED
   \<and> activeSessionRef (run [CallConnect granted, CallDisconnect calm, CallDisconnect calm,
              Resume 0, Resume 0, Resume 0, OnOpen (Some 6)] (init (Some (lit ''key'')) 0))
       = Some 5
   \<and> streamRef (run [CallConnect granted, CallDisconnect calm, CallDisconnect calm,
              Resume 0, Resume 0, Resume 0, OnOpen (Some 6)] (init (Some (lit ''key'')) 0))
       = Some 2"
  by code_simp

text \<open>
  C6, evaluated on the code. The session reports an error while the hook is connected:
  \<^verbatim>\<open>onerror\<close> starts the teardown, which suspends at \<^verbatim>\<open>await session.close()\<close>, and sets
  \<open>ERROR\<close>; when the teardown has continued to its end, its last step has set
  \<open>DISCONNECTED\<close>. The same happens when the microphone is denied during \<open>connect\<close>: the
  \<^verbatim>\<open>catch\<close> block starts the teardown, which suspends at \<^verbatim>\<open>await audioContext.close()\<close>,
  and sets \<open>ERROR\<close>; the finished teardown leaves \<open>DISCONNECTED\<close>. Without a credential,
  \<open>connect\<close> changes nothing.
\<close>

theorem error_ends_disconnected:
  "status connected = CONNECTED
   \<and> status (run [OnError calm] connected) = ERROR
   \<and> pool (run [OnError calm] connected) = [DisconnectAwaitSessionClose calm]
   \<and> status (run [OnError calm, Resume 0, Resume 0] connected) = DISCONNECTED
   \<and> pool (run [OnError calm, Resume 0, Resume 0] connected) = []
   \<and> status (run [CallConnect denied, Resume 0, Resume 0] (init (Some (lit ''key'')) 0)) = ERROR
   \<and> pool (run [CallConnect denied, Resume 0, Resume 0] (init (Some (lit ''key'')) 0))
       = [DisconnectAwaitContextClose calm]
   \<and> status (run [CallConnect denied, Resume 0, Resume 0, Resume 0] (init (Some (lit ''key'')) 0))
       = DISCONNECTED
   \<and> pool (run [CallConnect denied, Resume 0, Resume 0, Resume 0] (init (Some (lit ''key'')) 0))
       = []
   \<and> step (CallConnect granted) (init None 0) = init None 0"
  by code_simp

theorem error_ends_disconnected_witness:
  "status (run [OnError calm, Resume 0, Resume 0] connected) = DISCONNECTED
   \<and> status (run [CallConnect denied, Resume 0, Resume 0, Resume 0] (init (Some (lit ''key'')) 0))
       = DISCONNECTED"
  using error_ends_disconnected by blast

text \<open>
  C7, as the code has it. \<open>fetchGrammarFeedback\<close> returns at once and changes nothing
  when the text is empty after trimming or the credential is missing. Otherwise it
  issues one request and suspends, unless the call throws, which writes the fixed
  error string at once. When the request settles: a response with a non-empty text
  writes that text into \<open>modelResponse\<close> and sets \<open>isComplete\<close>; a rejection writes the
  fixed error string and sets \<open>isComplete\<close>; a response without text, or with an empty
  one, changes nothing. Each write goes to the first turn whose id is \<open>turnId\<close> and
  changes these two fields only; nothing is sent again.
\<close>

theorem fetchGrammarFeedback_outcomes:
  "(trim text = [] \<or> \<not> truthy (API_KEY w) \<longrightarrow> fetchGrammarFeedback fe text turnId w = (Done, w))
   \<and> (trim text \<noteq> [] \<and> truthy (API_KEY w) \<longrightarrow>
        fetchGrammarFeedback Thrown text turnId w
          = (Done, w\<lparr>turns := updateTurn turnId errorFeedback (turns w)\<rparr>)
        \<and> (fe \<noteq> Thrown \<longrightarrow>
             fetchGrammarFeedback fe text turnId w
               = (Await (FeedbackAwait turnId fe), w\<lparr>requests := requests w @ [(text, turnId)]\<rparr>)))
   \<and> resume (FeedbackAwait turnId fe) w' = (Done, feedback_settled turnId fe w')
   \<and> (f \<noteq> [] \<longrightarrow>
        feedback_settled turnId (Fulfilled (Some f)) w'
          = w'\<lparr>turns := updateTurn turnId
                (no_updates\<lparr>new_modelResponse := Some f, new_isComplete := Some True\<rparr>) (turns w')\<rparr>)
   \<and> feedback_settled turnId Rejected w' = w'\<lparr>turns := updateTurn turnId errorFeedback (turns w')\<rparr>
   \<and> feedback_settled turnId (Fulfilled None) w' = w'
   \<and> feedback_settled turnId (Fulfilled (Some [])) w' = w'
   \<and> (findIndex (\<lambda>t. id' t = turnId) ts = Some k \<longrightarrow>
        updateTurn turnId (no_updates\<lparr>new_modelResponse := Some f, new_isComplete := Some True\<rparr>) ts
          = ts[k := (ts ! k)\<lparr>modelResponse := f, isComplete := True\<rparr>]
        \<and> updateTurn turnId errorFeedback ts
          = ts[k := (ts ! k)\<lparr>modelResponse := lit ''Error generating feedback. Please try again.'',
                               isComplete := True\<rparr>])"
  by (cases fe) (simp_all add: fetchGrammarFeedback_def feedback_settled_def updateTurn_found
      spread_feedback errorFeedback_def)

theorem fetchGrammarFeedback_outcomes_witness:
  "fetchGrammarFeedback (Fulfilled (Some (lit ''Feedback:''))) (lit ''Hallo'') (lit ''0'')
       (step (Message (Some (lit ''Hallo''))) connected)
     = (Await (FeedbackAwait (lit ''0'') (Fulfilled (Some (lit ''Feedback:'')))),
        (step (Message (Some (lit ''Hallo''))) connected)
          \<lparr>requests := requests (step (Message (Some (lit ''Hallo''))) connected)
                        @ [(lit ''Hallo'', lit ''0'')]\<rparr>)
   \<and> fetchGrammarFeedback Rejected (lit '' '') (lit ''0'')
       (step (Message (Some (lit ''Hallo''))) connected)
     = (Done, step (Message (Some (lit ''Hallo''))) connected)
   \<and> updateTurn (lit ''0'')
       (no_updates\<lparr>new_modelResponse := Some (lit ''Feedback:''), new_isComplete := Some True\<rparr>)
       (turns (step (Message (Some (lit ''Hallo''))) connected))
     = (turns (step (Message (Some (lit ''Hallo''))) connected))
         [0 := (turns (step (Message (Some (lit ''Hallo''))) connected) ! 0)
                 \<lparr>modelResponse := lit ''Feedback:'', isComplete := True\<rparr>]
   \<and> turns (step (Message (Some (lit ''Hallo''))) connected)
     = [\<lparr>id' = lit ''0'', userTranscript = [], modelResponse = [], isComplete = False,
         timestamp = 0\<rparr>]"
proof -
  let ?W = "step (Message (Some (lit ''Hallo''))) connected"
  have g: "trim (lit ''Hallo'') \<noteq> [] \<and> truthy (API_KEY ?W)"
    by code_simp
  have f: "(Fulfilled (Some (lit ''Feedback:'')) :: jsstring option call_result) \<noteq> Thrown"
    by simp
  have b: "trim (lit '' '') = []"
    by (rule trim_lit_blank)
  have k: "findIndex (\<lambda>t. id' t = lit ''0'') (turns ?W) = Some 0"
    by code_simp
  have t: "turns ?W
     = [\<lparr>id' = lit ''0'', userTranscript = [], modelResponse = [], isComplete = False,
         timestamp = 0\<rparr>]"
    by code_simp
  from g f b k t
    fetchGrammarFeedback_outcomes
      [of "lit ''Hallo''" ?W "Fulfilled (Some (lit ''Feedback:''))" "lit ''0''" _
          "lit ''Feedback:''" "turns ?W" 0]
    fetchGrammarFeedback_outcomes [of "lit '' ''" ?W Rejected "lit ''0''"]
  show ?thesis by blast
qed

text \<open>
  C7 as stated fails: a turn is created and finalized with the transcript \<open>Hallo\<close>, the
  analysis request settles with a response that carries no text, and the turn is left
  with an empty \<open>modelResponse\<close> and \<open>isComplete\<close> false, with nothing pending.
\<close>

theorem feedback_without_text_counterexample:
  "turns (run [Message (Some (lit ''Hallo'')), Elapse 3000, TimerFire 1 (Fulfilled None), Resume 0]
            (init (Some (lit ''key'')) 1))
     = [\<lparr>id' = lit ''1'', userTranscript = lit ''Hallo'', modelResponse = [], isComplete = False,
          timestamp = 1\<rparr>]
   \<and> pool (run [Message (Some (lit ''Hallo'')), Elapse 3000, TimerFire 1 (Fulfilled None), Resume 0]
            (init (Some (lit ''key'')) 1)) = []"
  by code_simp

text \<open>
  C8. Whatever happens in the event loop, one event or any sequence of events, every
  turn that is in the sequence keeps its position, its id and its time stamp; the
  sequence only grows at its end. Every write of the feedback dispatcher, at the call
  or when the request settles (also in the event loop, at whatever later moment and
  in whatever order the requests settle), leaves the length, and the id, transcript
  and time stamp of every turn as they are, and changes no turn other than the first
  one whose id is the \<open>turnId\<close> of the call.
\<close>

theorem turn_identity_stable:
  "keeps_identities (turns w) (turns (step e w))
   \<and> keeps_identities (turns w) (turns (run es w))
   \<and> feedback_write turnId (turns w) (turns (snd (fetchGrammarFeedback fe text turnId w)))
   \<and> feedback_write turnId (turns w) (turns (feedback_settled turnId fe w))
   \<and> (i < length (pool w) \<and> pool w ! i = FeedbackAwait turnId fe \<longrightarrow>
        feedback_write turnId (turns w) (turns (step (Resume i) w)))"
  using feedback_write_settled [of turnId "w\<lparr>pool := take i (pool w) @ drop (Suc i) (pool w)\<rparr>" fe]
  by (simp add: keeps_identities_step keeps_identities_run feedback_write_fetch
      feedback_write_settled)

theorem turn_identity_stable_witness:
  "pool (run [Message (Some (lit ''Hallo'')), Elapse 3000,
              TimerFire 1 (Fulfilled (Some (lit ''Feedback:'')))] (init (Some (lit ''key'')) 0))
     = [FeedbackAwait (lit ''0'') (Fulfilled (Some (lit ''Feedback:'')))]
   \<and> feedback_write (lit ''0'')
        (turns (run [Message (Some (lit ''Hallo'')), Elapse 3000,
              TimerFire 1 (Fulfilled (Some (lit ''Feedback:'')))] (init (Some (lit ''key'')) 0)))
        (turns (step (Resume 0) (run [Message (Some (lit ''Hallo'')), Elapse 3000,
              TimerFire 1 (Fulfilled (Some (lit ''Feedback:'')))] (init (Some (lit ''key'')) 0))))
   \<and> keeps_identities
        (turns (run [Message (Some (lit ''Hallo'')), Elapse 3000,
              TimerFire 1 (Fulfilled (Some (lit ''Feedback:'')))] (init (Some (lit ''key'')) 0)))
        (turns (run [Message (Some (lit ''Noch'')), CallDisconnect calm, Resume 0]
           (run [Message (Some (lit ''Hallo'')), Elapse 3000,
              TimerFire 1 (Fulfilled (Some (lit ''Feedback:'')))] (init (Some (lit ''key'')) 0))))
   \<and> turns (step (Resume 0) (run [Message (Some (lit ''Hallo'')), Elapse 3000,
              TimerFire 1 (Fulfilled (Some (lit ''Feedback:'')))] (init (Some (lit ''key'')) 0)))
     = [\<lparr>id' = lit ''0'', userTranscript = lit ''Hallo'', modelResponse = lit ''Feedback:'',
         isComplete = True, timestamp = 0\<rparr>]"
proof -
  let ?W = "run [Message (Some (lit ''Hallo'')), Elapse 3000,
              TimerFire 1 (Fulfilled (Some (lit ''Feedback:'')))] (init (Some (lit ''key'')) 0)"
  have p: "pool ?W = [FeedbackAwait (lit ''0'') (Fulfilled (Some (lit ''Feedback:'')))]"
    by code_simp
  then have h: "0 < length (pool ?W)
      \<and> pool ?W ! 0 = FeedbackAwait (lit ''0'') (Fulfilled (Some (lit ''Feedback:'')))"
    by simp
  have t: "turns (step (Resume 0) ?W)
     = [\<lparr>id' = lit ''0'', userTranscript = lit ''Hallo'', modelResponse = lit ''Feedback:'',
         isComplete = True, timestamp = 0\<rparr>]"
    by code_simp
  from p h t
    turn_identity_stable
      [of ?W _ "[Message (Some (lit ''Noch'')), CallDisconnect calm, Resume 0]" "lit ''0''"
          "Fulfilled (Some (lit ''Feedback:''))" _ 0]
  show ?thesis by blast
qed

text \<open>
  C9. For every turn sequence \<open>ts\<close>, every id \<open>i\<close> and every update \<open>u\<close>, the updater of
  \<open>updateTurn\<close> returns a sequence of the same length in which every position other
  than the first one whose turn has id \<open>i\<close> holds the very same turn (nothing is inserted,
  deleted or moved), and it returns \<open>ts\<close> itself when no turn has id \<open>i\<close>. The ids of all
  positions are the same as before whenever the update carries no \<open>id\<close> key (or carries
  \<open>i\<close> itself), which is the case at every call site of the hook: the updates issued
  there set \<open>userTranscript\<close>, or \<open>modelResponse\<close> and \<open>isComplete\<close>.
\<close>

theorem updateTurn_keeps_sequence:
  "length (updateTurn i u ts) = length ts
   \<and> (\<forall>j. findIndex (\<lambda>t. id' t = i) ts \<noteq> Some j \<longrightarrow> updateTurn i u ts ! j = ts ! j)
   \<and> (new_id u = None \<or> new_id u = Some i \<longrightarrow> map id' (updateTurn i u ts) = map id' ts)
   \<and> (i \<notin> id' ` set ts \<longrightarrow> updateTurn i u ts = ts)"
  using length_updateTurn updateTurn_nth_other map_id_updateTurn updateTurn_absent
  by blast

theorem updateTurn_keeps_sequence_witness:
  "updateTurn (lit ''2'') (no_updates\<lparr>new_userTranscript := Some (lit ''Hallo'')\<rparr>)
     (createTurn (lit ''2'') 2 (createTurn (lit ''1'') 1 []))
   = [\<lparr>id' = lit ''1'', userTranscript = [], modelResponse = [], isComplete = False, timestamp = 1\<rparr>,
      \<lparr>id' = lit ''2'', userTranscript = lit ''Hallo'', modelResponse = [], isComplete = False,
        timestamp = 2\<rparr>]
   \<and> map id' (updateTurn (lit ''2'') (no_updates\<lparr>new_userTranscript := Some (lit ''Hallo'')\<rparr>)
        (createTurn (lit ''2'') 2 (createTurn (lit ''1'') 1 [])))
     = [lit ''1'', lit ''2'']
   \<and> updateTurn (lit ''3'') (no_updates\<lparr>new_userTranscript := Some (lit ''Hallo'')\<rparr>)
        (createTurn (lit ''2'') 2 (createTurn (lit ''1'') 1 []))
     = createTurn (lit ''2'') 2 (createTurn (lit ''1'') 1 [])"
  using updateTurn_keeps_sequence
    [of "lit ''2''" "no_updates\<lparr>new_userTranscript := Some (lit ''Hallo'')\<rparr>"
        "createTurn (lit ''2'') 2 (createTurn (lit ''1'') 1 [])"]
    updateTurn_keeps_sequence
    [of "lit ''3''" "no_updates\<lparr>new_userTranscript := Some (lit ''Hallo'')\<rparr>"
        "createTurn (lit ''2'') 2 (createTurn (lit ''1'') 1 [])"]
  by (simp add: updateTurn_def createTurn_def spread_def no_updates_def lit_def)

text \<open>
  C10. \<open>disconnect\<close> never modifies the turn sequence. The part of it that runs at the
  call, each continuation after an \<^verbatim>\<open>await\<close>, the whole function run without
  interruption, and the corresponding turns of the event loop all leave \<open>turns\<close> as it
  was, whatever the platform answers; an unfinalized turn stays in the sequence as it
  is. When the unguarded calls do not throw, the uninterrupted run ends in \<open>torn_down w\<close>:
  only the connection state, the analyser, the refs, the open-turn fields and the
  cancelled timer differ from \<open>w\<close>.
\<close>

theorem disconnect_keeps_turns:
  "turns (snd (disconnect te w)) = turns w
   \<and> (teardown_task t \<longrightarrow> turns (snd (resume t w)) = turns w)
   \<and> turns (snd (complete 2 (disconnect te w))) = turns w
   \<and> turns (step (CallDisconnect te) w) = turns w
   \<and> (i < length (pool w) \<and> teardown_task (pool w ! i) \<longrightarrow> turns (step (Resume i) w) = turns w)
   \<and> (releases te \<longrightarrow> complete 2 (disconnect te w) = (Done, torn_down w)
        \<and> turns (torn_down w) = turns w)"
  by (simp add: turns_disconnect turns_resume_teardown turns_complete_disconnect
      complete_disconnect_releases torn_down_def)

theorem disconnect_keeps_turns_witness:
  "turns (step (Message (Some (lit ''Ich''))) connected)
     = [\<lparr>id' = lit ''0'', userTranscript = [], modelResponse = [], isComplete = False,
         timestamp = 0\<rparr>]
   \<and> turns (step (CallDisconnect calm) (step (Message (Some (lit ''Ich''))) connected))
     = turns (step (Message (Some (lit ''Ich''))) connected)
   \<and> turns (step (Resume 0) (step (CallDisconnect calm) (step (Message (Some (lit ''Ich''))) connected)))
     = turns (step (CallDisconnect calm) (step (Message (Some (lit ''Ich''))) connected))
   \<and> complete 2 (disconnect calm (step (Message (Some (lit ''Ich''))) connected))
     = (Done, torn_down (step (Message (Some (lit ''Ich''))) connected))"
proof -
  have t: "turns (step (Message (Some (lit ''Ich''))) connected)
     = [\<lparr>id' = lit ''0'', userTranscript = [], modelResponse = [], isComplete = False,
         timestamp = 0\<rparr>]"
    by code_simp
  have h: "0 < length (pool (step (CallDisconnect calm) (step (Message (Some (lit ''Ich''))) connected)))
     \<and> teardown_task
         (pool (step (CallDisconnect calm) (step (Message (Some (lit ''Ich''))) connected)) ! 0)"
    by code_simp
  have r: "releases calm"
    by (simp add: releases_def calm_def)
  from t h r
    disconnect_keeps_turns [of calm "step (Message (Some (lit ''Ich''))) connected" _ 0]
    disconnect_keeps_turns
      [of _ "step (CallDisconnect calm) (step (Message (Some (lit ''Ich''))) connected)" _ 0]
  show ?thesis by blast
qed

end
